theory Spec2Isabelle
  imports Complex_Main "HOL-Library.Monad_Syntax" "HOL-Library.AList" "HOL-Library.Word"
begin

section \<open>Numbers\<close>

text \<open>
  The program computes on IEEE doubles held in pandas columns. A value is modelled as a
  finite real, one of the two infinities, or NaN (pandas' missing value). Arithmetic on
  finite values is exact (no rounding, no overflow, one zero); on the special values it
  follows IEEE 754. Comparisons with NaN are false. A column of whole numbers is held as
  \<open>int64\<close> instead: its values are 64-bit words (section Frames).
\<close>

datatype fl = Fin real | PInf | NInf | NaN

fun isnan :: "fl \<Rightarrow> bool" where
  "isnan NaN = True"
| "isnan _ = False"

fun isinf :: "fl \<Rightarrow> bool" where
  "isinf PInf = True"
| "isinf NInf = True"
| "isinf _ = False"

text \<open>The sign of a value as \<open>-1\<close>, \<open>0\<close>, \<open>1\<close>; NaN has none and gets \<open>0\<close>.\<close>

fun fsign :: "fl \<Rightarrow> int" where
  "fsign (Fin a) = (if a < 0 then -1 else if a = 0 then 0 else 1)"
| "fsign PInf = 1"
| "fsign NInf = -1"
| "fsign NaN = 0"

fun fneg :: "fl \<Rightarrow> fl" where
  "fneg (Fin a) = Fin (- a)"
| "fneg PInf = NInf"
| "fneg NInf = PInf"
| "fneg NaN = NaN"

fun fabs :: "fl \<Rightarrow> fl" where
  "fabs (Fin a) = Fin \<bar>a\<bar>"
| "fabs PInf = PInf"
| "fabs NInf = PInf"
| "fabs NaN = NaN"

fun fadd :: "fl \<Rightarrow> fl \<Rightarrow> fl" where
  "fadd (Fin a) (Fin b) = Fin (a + b)"
| "fadd NaN y = NaN"
| "fadd x NaN = NaN"
| "fadd PInf NInf = NaN"
| "fadd NInf PInf = NaN"
| "fadd PInf y = PInf"
| "fadd x PInf = PInf"
| "fadd NInf y = NInf"
| "fadd x NInf = NInf"

definition fsub :: "fl \<Rightarrow> fl \<Rightarrow> fl" where
  "fsub x y = fadd x (fneg y)"

text \<open>A product with an infinite factor: NaN against zero, else the infinity of the
  product's sign.\<close>

definition inf_of_sign :: "int \<Rightarrow> fl" where
  "inf_of_sign s = (if s = 0 then NaN else if 0 < s then PInf else NInf)"

fun fmul :: "fl \<Rightarrow> fl \<Rightarrow> fl" where
  "fmul (Fin a) (Fin b) = Fin (a * b)"
| "fmul NaN y = NaN"
| "fmul x NaN = NaN"
| "fmul x y = inf_of_sign (fsign x * fsign y)"

text \<open>Division. A finite value over zero is an infinity (NaN for \<open>0/0\<close>); the model has
  one zero, taken as positive. A finite value over an infinity is zero.\<close>

fun fdiv :: "fl \<Rightarrow> fl \<Rightarrow> fl" where
  "fdiv (Fin a) (Fin b) = (if b = 0 then inf_of_sign (fsign (Fin a)) else Fin (a / b))"
| "fdiv NaN y = NaN"
| "fdiv x NaN = NaN"
| "fdiv (Fin a) y = Fin 0"
| "fdiv x (Fin b) = inf_of_sign (fsign x * (if b < 0 then -1 else 1))"
| "fdiv x y = NaN"

fun flt :: "fl \<Rightarrow> fl \<Rightarrow> bool" where
  "flt (Fin a) (Fin b) = (a < b)"
| "flt NaN y = False"
| "flt x NaN = False"
| "flt x NInf = False"
| "flt PInf y = False"
| "flt x y = True"

definition fgt :: "fl \<Rightarrow> fl \<Rightarrow> bool" where
  "fgt x y = flt y x"

definition fle :: "fl \<Rightarrow> fl \<Rightarrow> bool" where
  "fle x y = (\<not> isnan x \<and> \<not> isnan y \<and> \<not> flt y x)"

definition fge :: "fl \<Rightarrow> fl \<Rightarrow> bool" where
  "fge x y = fle y x"

text \<open>Python's truth value of a float: everything but zero, NaN included.\<close>

definition truthy :: "fl \<Rightarrow> bool" where
  "truthy x = (x \<noteq> Fin 0)"

section \<open>Series\<close>

text \<open>
  A pandas Series is its list of values; every Series the program combines carries the
  index of the one frame it was read from, so alignment is by position.
\<close>

type_synonym series = "fl list"

definition zipwith :: "('a \<Rightarrow> 'b \<Rightarrow> 'c) \<Rightarrow> 'a list \<Rightarrow> 'b list \<Rightarrow> 'c list" where
  "zipwith f xs ys = map (\<lambda>(x, y). f x y) (zip xs ys)"

text \<open>\<open>s.shift()\<close>: every value one place later, NaN in front.\<close>

fun shift :: "series \<Rightarrow> series" where
  "shift [] = []"
| "shift (x # xs) = NaN # butlast (x # xs)"

text \<open>\<open>s.diff()\<close> is \<open>s - s.shift()\<close>.\<close>

definition diff :: "series \<Rightarrow> series" where
  "diff xs = zipwith fsub xs (shift xs)"

text \<open>\<open>s.clip(lower=l)\<close> and \<open>s.clip(upper=u)\<close>: NaN stays NaN.\<close>

definition clip_lower :: "fl \<Rightarrow> series \<Rightarrow> series" where
  "clip_lower l xs = map (\<lambda>x. if flt x l then l else x) xs"

definition clip_upper :: "fl \<Rightarrow> series \<Rightarrow> series" where
  "clip_upper u xs = map (\<lambda>x. if fgt x u then u else x) xs"

definition fillna :: "fl \<Rightarrow> series \<Rightarrow> series" where
  "fillna v xs = map (\<lambda>x. if isnan x then v else x) xs"

text \<open>\<open>s.replace(0, nan)\<close>.\<close>

definition replace_zero :: "series \<Rightarrow> series" where
  "replace_zero xs = map (\<lambda>x. if x = Fin 0 then NaN else x) xs"

text \<open>\<open>replace([inf, -inf], nan)\<close> on one column.\<close>

definition inf_to_nan :: "fl \<Rightarrow> fl" where
  "inf_to_nan x = (if isinf x then NaN else x)"

text \<open>\<open>fillna(method='ffill')\<close> carries the last present value forward,
  \<open>fillna(method='bfill')\<close> the next one backward.\<close>

fun ffill_from :: "fl \<Rightarrow> series \<Rightarrow> series" where
  "ffill_from prev [] = []"
| "ffill_from prev (x # xs) =
     (if isnan x then prev # ffill_from prev xs else x # ffill_from x xs)"

definition ffill :: "series \<Rightarrow> series" where
  "ffill xs = ffill_from NaN xs"

definition bfill :: "series \<Rightarrow> series" where
  "bfill xs = rev (ffill (rev xs))"

text \<open>\<open>s.cumsum()\<close> of a \<open>float64\<close> series (skipna): a NaN entry counts as zero in the
  running sum and is NaN in the output. The running sum of an \<open>int64\<close> column is
  \<open>int_cumsum_from\<close> below.\<close>

fun cumsum_from :: "fl \<Rightarrow> series \<Rightarrow> series" where
  "cumsum_from acc [] = []"
| "cumsum_from acc (x # xs) =
     (let acc' = fadd acc (if isnan x then Fin 0 else x)
      in (if isnan x then NaN else acc') # cumsum_from acc' xs)"

definition cumsum :: "series \<Rightarrow> series" where
  "cumsum xs = cumsum_from (Fin 0) xs"

text \<open>The row-wise \<open>max(axis=1)\<close> of three columns skips NaN; a row of NaNs gives NaN.\<close>

definition fmax2 :: "fl \<Rightarrow> fl \<Rightarrow> fl" where
  "fmax2 a b = (if isnan a then b else if isnan b then a else if flt a b then b else a)"

definition row_max3 :: "series \<Rightarrow> series \<Rightarrow> series \<Rightarrow> series" where
  "row_max3 xs ys zs = map (\<lambda>(a, b, c). fmax2 (fmax2 a b) c) (zip xs (zip ys zs))"

subsection \<open>Windows\<close>

text \<open>
  Both \<open>rolling(...)\<close> and \<open>ewm(...)\<close> first turn infinite inputs into NaN
  (pandas' \<open>_prep_values\<close>).
\<close>

definition prep_values :: "series \<Rightarrow> series" where
  "prep_values xs = map inf_to_nan xs"

text \<open>The window ending at bar \<open>t\<close>: the last \<open>w\<close> values up to and including \<open>t\<close>,
  fewer at the start.\<close>

definition window_at :: "nat \<Rightarrow> nat \<Rightarrow> 'a list \<Rightarrow> 'a list" where
  "window_at w t xs = drop (Suc t - w) (take (Suc t) xs)"

fun finite_vals :: "series \<Rightarrow> real list" where
  "finite_vals [] = []"
| "finite_vals (Fin a # xs) = a # finite_vals xs"
| "finite_vals (x # xs) = finite_vals xs"

text \<open>The mean of the observations of a window, when there are at least \<open>minp\<close> (and one).\<close>

definition calc_mean :: "nat \<Rightarrow> series \<Rightarrow> fl" where
  "calc_mean minp ws =
     (let obs = finite_vals ws; nobs = length obs
      in if minp \<le> nobs \<and> 0 < nobs then Fin (sum_list obs / real nobs) else NaN)"

text \<open>\<open>s.rolling(window=w, min_periods=minp).mean()\<close>.\<close>

definition rolling_mean :: "nat \<Rightarrow> nat \<Rightarrow> series \<Rightarrow> series" where
  "rolling_mean w minp xs =
     (let vals = prep_values xs
      in map (\<lambda>t. calc_mean minp (window_at w t vals)) [0..<length xs])"

text \<open>
  \<open>s.ewm(alpha=\<alpha>, adjust=False).mean()\<close>, as pandas' \<open>ewm\<close> routine runs it
  (\<open>ignore_na=False\<close>, \<open>min_periods\<close> taken as 1). The state is the running average
  \<open>weighted\<close> and the weight \<open>old_wt\<close> of that average: \<open>old_wt\<close> decays by \<open>1 - \<alpha>\<close> at
  every bar once there is an average and is reset to 1 by each observation, the new
  observation entering with weight \<open>\<alpha>\<close> and the sum renormalised. Before the first
  observation the average and the output are NaN.
\<close>

fun ewm_step :: "real \<Rightarrow> fl \<times> real \<Rightarrow> fl \<Rightarrow> fl \<times> real" where
  "ewm_step \<alpha> (Fin w, old_wt) (Fin c) =
     (let old_wt' = old_wt * (1 - \<alpha>)
      in (if w \<noteq> c then Fin ((old_wt' * w + \<alpha> * c) / (old_wt' + \<alpha>)) else Fin w, 1))"
| "ewm_step \<alpha> (Fin w, old_wt) cur = (Fin w, old_wt * (1 - \<alpha>))"
| "ewm_step \<alpha> (weighted, old_wt) cur = (cur, old_wt)"

fun ewm_loop :: "real \<Rightarrow> fl \<times> real \<Rightarrow> series \<Rightarrow> series" where
  "ewm_loop \<alpha> st [] = []"
| "ewm_loop \<alpha> st (cur # vals) =
     (let st' = ewm_step \<alpha> st cur in fst st' # ewm_loop \<alpha> st' vals)"

fun ewm_core :: "real \<Rightarrow> series \<Rightarrow> series" where
  "ewm_core \<alpha> [] = []"
| "ewm_core \<alpha> (v # vals) = v # ewm_loop \<alpha> (v, 1) vals"

text \<open>pandas refuses a smoothing factor outside \<open>(0, 1]\<close> and a span below 1
  (\<open>ValueError\<close>, here \<open>None\<close>); a span \<open>s\<close> stands for \<open>\<alpha> = 2 / (s + 1)\<close>.\<close>

definition ewm_mean_alpha :: "real \<Rightarrow> series \<Rightarrow> series option" where
  "ewm_mean_alpha \<alpha> xs =
     (if 0 < \<alpha> \<and> \<alpha> \<le> 1 then Some (ewm_core \<alpha> (prep_values xs)) else None)"

definition ewm_mean_span :: "int \<Rightarrow> series \<Rightarrow> series option" where
  "ewm_mean_span s xs =
     (if 1 \<le> s then Some (ewm_core (2 / (real_of_int s + 1)) (prep_values xs))
      else None)"

section \<open>Frames\<close>

text \<open>
  A column of a frame has a dtype. \<open>pd.to_numeric\<close> reads a CSV column of whole numbers
  as \<open>int64\<close> and any other as \<open>float64\<close>; the sum and the product of two \<open>int64\<close>
  columns are \<open>int64\<close> again and wrap around silently, as 64-bit words do.
\<close>

datatype column = FloatCol series | IntCol "64 word list"

text \<open>An \<open>int64\<close> value as the \<open>float64\<close> it becomes where it meets a float (the
  conversion is exact in this model).\<close>

definition int_to_float :: "64 word \<Rightarrow> fl" where
  "int_to_float w = Fin (real_of_int (sint w))"

fun as_float :: "column \<Rightarrow> series" where
  "as_float (FloatCol xs) = xs"
| "as_float (IntCol ws) = map int_to_float ws"

text \<open>\<open>a + b\<close> and \<open>a * b\<close> on two columns.\<close>

fun col_add :: "column \<Rightarrow> column \<Rightarrow> column" where
  "col_add (IntCol a) (IntCol b) = IntCol (zipwith (+) a b)"
| "col_add x y = FloatCol (zipwith fadd (as_float x) (as_float y))"

fun col_mul :: "column \<Rightarrow> column \<Rightarrow> column" where
  "col_mul (IntCol a) (IntCol b) = IntCol (zipwith (*) a b)"
| "col_mul x y = FloatCol (zipwith fmul (as_float x) (as_float y))"

text \<open>\<open>s.cumsum()\<close> of a column: an \<open>int64\<close> column has no missing value and is summed
  in 64 bits.\<close>

fun int_cumsum_from :: "64 word \<Rightarrow> 64 word list \<Rightarrow> 64 word list" where
  "int_cumsum_from acc [] = []"
| "int_cumsum_from acc (w # ws) = (acc + w) # int_cumsum_from (acc + w) ws"

fun col_cumsum :: "column \<Rightarrow> column" where
  "col_cumsum (FloatCol xs) = FloatCol (cumsum xs)"
| "col_cumsum (IntCol ws) = IntCol (int_cumsum_from 0 ws)"

text \<open>\<open>replace([inf, -inf], nan)\<close> on a column: an \<open>int64\<close> column holds no infinity.\<close>

fun scrub_column :: "column \<Rightarrow> column" where
  "scrub_column (FloatCol xs) = FloatCol (map inf_to_nan xs)"
| "scrub_column (IntCol ws) = IntCol ws"

text \<open>
  A DataFrame is an index (the bars' timestamps) and its named columns, in order. Reading
  a column that is not there raises \<open>KeyError\<close>, reading a position that is not there
  raises \<open>IndexError\<close>; a raised exception is the result \<open>None\<close>.
\<close>

record 't frame =
  index :: "'t list"
  cols :: "(string \<times> column) list"

text \<open>pandas keeps every column as long as the index; the frames of this program have
  one column of each name.\<close>

definition wf_frame :: "'t frame \<Rightarrow> bool" where
  "wf_frame df =
     (distinct (map fst (cols df))
      \<and> list_all (\<lambda>(k, c). length (as_float c) = length (index df)) (cols df))"

text \<open>
  \<open>df[k]\<close>. The program adds and multiplies whole columns in two places, the typical price
  and the volume sums of \<open>compute_vwap\<close> and the on-balance volume; there the column is read
  with its dtype (\<open>column_of\<close>). Everywhere else a column is compared or combined with
  floats, or handed to \<open>astype(float)\<close>, \<open>shift\<close>, \<open>rolling\<close> or \<open>ewm\<close>, all of which
  work on its values as \<open>float64\<close> (\<open>getitem\<close>). The differences \<open>high - low\<close> and
  \<open>close.diff()\<close> are taken on the values as well: a difference of two \<open>int64\<close> values
  leaves the 64-bit range only when they have opposite signs, and prices are positive.
\<close>

definition column_of :: "'t frame \<Rightarrow> string \<Rightarrow> column option" where
  "column_of df k = map_of (cols df) k"

definition getitem :: "'t frame \<Rightarrow> string \<Rightarrow> series option" where
  "getitem df k = map_option as_float (column_of df k)"

definition iat :: "'a list \<Rightarrow> nat \<Rightarrow> 'a option" where
  "iat xs i = (if i < length xs then Some (xs ! i) else None)"

text \<open>\<open>s.iat[-1]\<close>.\<close>

definition iat_last :: "'a list \<Rightarrow> 'a option" where
  "iat_last xs = (if xs = [] then None else Some (last xs))"

text \<open>
  Frames are objects: a variable holds the address of a frame in the store, and
  \<open>df[k] = v\<close> changes the frame at that address for everyone who holds it. The store is
  the list of the frames allocated so far, an address is a position in it.
\<close>

type_synonym 't store = "'t frame list"

definition alloc :: "'t store \<Rightarrow> 't frame \<Rightarrow> nat \<times> 't store" where
  "alloc h df = (length h, h @ [df])"

text \<open>\<open>df.copy()\<close>: a new frame with the same index and columns.\<close>

definition copy :: "'t store \<Rightarrow> nat \<Rightarrow> nat \<times> 't store" where
  "copy h a = alloc h (h ! a)"

text \<open>\<open>df[k] = v\<close>: the column \<open>k\<close> is replaced where it stands, a new column goes
  to the end.\<close>

definition setitem :: "'t store \<Rightarrow> nat \<Rightarrow> string \<Rightarrow> column \<Rightarrow> 't store" where
  "setitem h a k v = h[a := (h ! a)\<lparr>cols := AList.update k v (cols (h ! a))\<rparr>]"

text \<open>\<open>df.replace([np.inf, -np.inf], np.nan)\<close>: a new frame, every column of the old
  one with its infinite values turned into NaN.\<close>

definition replace_inf :: "'t store \<Rightarrow> nat \<Rightarrow> nat \<times> 't store" where
  "replace_inf h a =
     alloc h ((h ! a)\<lparr>cols := map (\<lambda>(k, c). (k, scrub_column c)) (cols (h ! a))\<rparr>)"

section \<open>Indicators\<close>

definition ema :: "series \<Rightarrow> int \<Rightarrow> series option" where
  "ema xs s = ewm_mean_span s xs"

definition macd :: "'t frame \<Rightarrow> int \<Rightarrow> int \<Rightarrow> int \<Rightarrow> (series \<times> series \<times> series) option" where
  "macd df fast slow signal = do {
     close \<leftarrow> getitem df ''close'';
     ema_fast \<leftarrow> ema close fast;
     ema_slow \<leftarrow> ema close slow;
     let macd_line = zipwith fsub ema_fast ema_slow;
     macd_signal \<leftarrow> ema macd_line signal;
     let macd_hist = zipwith fsub macd_line macd_signal;
     Some (macd_line, macd_signal, macd_hist)
   }"

text \<open>In \<open>compute_rsi\<close> the smoothing factor is \<open>1/length\<close>: a \<open>length\<close> of zero raises
  \<open>ZeroDivisionError\<close>, a negative one is refused by \<open>ewm\<close>; both are \<open>None\<close>, which
  \<open>ewm_mean_alpha\<close> returns for them (\<open>1 / 0 = 0\<close> in HOL).\<close>

definition compute_rsi :: "series \<Rightarrow> int \<Rightarrow> series option" where
  "compute_rsi close n =
     (if int (length close) < n + 1 then Some (replicate (length close) (Fin 50))
      else do {
        let delta = diff close;
        let up = fillna (Fin 0) (clip_lower (Fin 0) delta);
        let down = map (fmul (Fin (- 1))) (fillna (Fin 0) (clip_upper (Fin 0) delta));
        roll_up \<leftarrow> ewm_mean_alpha (1 / real_of_int n) up;
        roll_down \<leftarrow> ewm_mean_alpha (1 / real_of_int n) down;
        let rs = zipwith fdiv roll_up (replace_zero roll_down);
        let rsi = map (\<lambda>r. fsub (Fin 100) (fdiv (Fin 100) (fadd (Fin 1) r))) rs;
        Some (fillna (Fin 50) rsi)
      })"

definition compute_vwap :: "'t frame \<Rightarrow> series option" where
  "compute_vwap df = do {
     high \<leftarrow> column_of df ''high'';
     low \<leftarrow> column_of df ''low'';
     close \<leftarrow> column_of df ''close'';
     let typical = map (\<lambda>x. fdiv x (Fin 3)) (as_float (col_add (col_add high low) close));
     volume \<leftarrow> getitem df ''volume'';
     let tpv = zipwith fmul typical volume;
     volume \<leftarrow> column_of df ''volume'';
     let vwap = zipwith fdiv (cumsum tpv) (replace_zero (as_float (col_cumsum volume)));
     Some (bfill (ffill vwap))
   }"

text \<open>\<open>(delta > 0).astype(int) * 2 - 1\<close>, an \<open>int64\<close> value.\<close>

definition obv_sign :: "fl \<Rightarrow> 64 word" where
  "obv_sign d = (if fgt d (Fin 0) then 1 else 0) * 2 - 1"

text \<open>
  \<open>compute_all_indicators\<close> is called with the address of the caller's frame and returns
  the address of its result together with the store it leaves behind.
\<close>

definition compute_all_indicators :: "'t store \<Rightarrow> nat \<Rightarrow> (nat \<times> 't store) option" where
  "compute_all_indicators h0 df0 = do {
     let (df, h) = copy h0 df0;
     close \<leftarrow> getitem (h ! df) ''close'';
     rsi \<leftarrow> compute_rsi close 14;
     let h = setitem h df ''RSI'' (FloatCol rsi);
     (macd_line, macd_signal, macd_hist) \<leftarrow> macd (h ! df) 12 26 9;
     let h = setitem h df ''MACD'' (FloatCol macd_line);
     let h = setitem h df ''MACD_signal'' (FloatCol macd_signal);
     let h = setitem h df ''MACD_hist'' (FloatCol macd_hist);
     close \<leftarrow> getitem (h ! df) ''close'';
     ema_10 \<leftarrow> ema close 10;
     let h = setitem h df ''EMA_10'' (FloatCol ema_10);
     close \<leftarrow> getitem (h ! df) ''close'';
     ema_100 \<leftarrow> ema close 100;
     let h = setitem h df ''EMA_100'' (FloatCol ema_100);
     vwap \<leftarrow> compute_vwap (h ! df);
     let h = setitem h df ''VWAP'' (FloatCol vwap);
     close \<leftarrow> getitem (h ! df) ''close'';
     volume \<leftarrow> column_of (h ! df) ''volume'';
     let h = setitem h df ''OBV''
               (col_mul (IntCol (map obv_sign (fillna (Fin 0) (diff close)))) volume);
     obv \<leftarrow> column_of (h ! df) ''OBV'';
     let h = setitem h df ''OBV'' (col_cumsum obv);
     high \<leftarrow> getitem (h ! df) ''high'';
     low \<leftarrow> getitem (h ! df) ''low'';
     close \<leftarrow> getitem (h ! df) ''close'';
     let h = setitem h df ''TR''
               (FloatCol (row_max3 (zipwith fsub high low)
                                   (map fabs (zipwith fsub high (shift close)))
                                   (map fabs (zipwith fsub low (shift close)))));
     tr \<leftarrow> getitem (h ! df) ''TR'';
     let h = setitem h df ''ATR_14'' (FloatCol (rolling_mean 14 1 tr));
     let (df, h) = replace_inf h df;
     Some (df, h)
   }"

section \<open>Backtest\<close>

type_synonym 't trade = "string \<times> 't \<times> fl"

record 't portfolio =
  cash :: fl
  position :: fl
  trades :: "'t trade list"

record 't backtest_result =
  final_portfolio_value :: fl
  n_trades :: nat
  win_rate :: fl
  trades_sample :: "'t trade list"

text \<open>\<open>df.loc[mask, 'signal'] = v\<close>.\<close>

definition loc_assign :: "bool list \<Rightarrow> int \<Rightarrow> int list \<Rightarrow> int list" where
  "loc_assign msk v signal = zipwith (\<lambda>m s. if m then v else s) msk signal"

text \<open>
  \<open>safe_backtest\<close> works on a copy of its argument, to which it adds the columns
  \<open>vol_mean20\<close> and \<open>signal\<close>; the copy never leaves the function, so the two columns
  are values of the model and the frame is read only.
\<close>

definition signals :: "'t frame \<Rightarrow> int list option" where
  "signals df = do {
     volume \<leftarrow> getitem df ''volume'';
     let vol_mean20 = rolling_mean 20 1 volume;
     let signal = replicate (length (index df)) 0;
     macd_line \<leftarrow> getitem df ''MACD'';
     macd_signal \<leftarrow> getitem df ''MACD_signal'';
     close \<leftarrow> getitem df ''close'';
     ema_10 \<leftarrow> getitem df ''EMA_10'';
     volume \<leftarrow> getitem df ''volume'';
     let signal = loc_assign
           (zipwith (\<and>) (zipwith (\<and>) (zipwith fgt macd_line macd_signal) (zipwith fgt close ema_10))
                      (zipwith fgt volume vol_mean20))
           1 signal;
     macd_line \<leftarrow> getitem df ''MACD'';
     macd_signal \<leftarrow> getitem df ''MACD_signal'';
     close \<leftarrow> getitem df ''close'';
     ema_10 \<leftarrow> getitem df ''EMA_10'';
     let signal = loc_assign
           (zipwith (\<and>) (zipwith flt macd_line macd_signal) (zipwith flt close ema_10))
           (- 1) signal;
     Some signal
   }"

definition initial :: "'t portfolio" where
  "initial = \<lparr>cash = Fin 100000, position = Fin 0, trades = []\<rparr>"

text \<open>One iteration of the loop over the bars, at bar \<open>i\<close>.\<close>

definition bt_step :: "'t frame \<Rightarrow> int list \<Rightarrow> nat \<Rightarrow> 't portfolio \<Rightarrow> 't portfolio option" where
  "bt_step df signal i st = do {
     sig \<leftarrow> iat signal i;
     if sig = 1 \<and> position st = Fin 0 then do {
       opn \<leftarrow> getitem df ''open'';
       price \<leftarrow> iat opn (i + 1);
       if isnan price \<or> fle price (Fin 0) then Some st
       else do {
         ts \<leftarrow> iat (index df) (i + 1);
         Some \<lparr>cash = Fin 0, position = fdiv (cash st) price,
               trades = trades st @ [(''buy'', ts, price)]\<rparr>
       }
     } else if sig = - 1 \<and> fgt (position st) (Fin 0) then do {
       opn \<leftarrow> getitem df ''open'';
       price \<leftarrow> iat opn (i + 1);
       if isnan price \<or> fle price (Fin 0) then Some st
       else do {
         ts \<leftarrow> iat (index df) (i + 1);
         Some \<lparr>cash = fmul (position st) price, position = Fin 0,
               trades = trades st @ [(''sell'', ts, price)]\<rparr>
       }
     } else Some st
   }"

fun bt_loop :: "'t frame \<Rightarrow> int list \<Rightarrow> nat list \<Rightarrow> 't portfolio \<Rightarrow> 't portfolio option" where
  "bt_loop df signal [] st = Some st"
| "bt_loop df signal (i # is) st =
     (case bt_step df signal i st of None \<Rightarrow> None | Some st' \<Rightarrow> bt_loop df signal is st')"

text \<open>The pairs \<open>j, j+1\<close> for \<open>j\<close> in \<open>range(0, len(trades) - 1, 2)\<close> that are a buy
  followed by a sell at a higher price.\<close>

definition is_win :: "'t trade list \<Rightarrow> nat \<Rightarrow> bool" where
  "is_win ts j =
     (fst (ts ! j) = ''buy'' \<and> fst (ts ! (j + 1)) = ''sell''
      \<and> fgt (snd (snd (ts ! (j + 1)))) (snd (snd (ts ! j))))"

definition count_wins :: "'t trade list \<Rightarrow> nat" where
  "count_wins ts = length (filter (is_win ts) (filter even [0..<length ts - 1]))"

definition final_value :: "'t frame \<Rightarrow> 't portfolio \<Rightarrow> fl option" where
  "final_value df st =
     (if truthy (position st) then do {
        close \<leftarrow> getitem df ''close'';
        c \<leftarrow> iat_last close;
        Some (fadd (cash st) (fmul (position st) c))
      } else Some (fadd (cash st) (Fin 0)))"

definition safe_backtest :: "'t frame \<Rightarrow> 't backtest_result option" where
  "safe_backtest df = do {
     signal \<leftarrow> signals df;
     st \<leftarrow> bt_loop df signal [0..<length (index df) - 1] initial;
     fv \<leftarrow> final_value df st;
     let n = length (trades st);
     let wins = count_wins (trades st);
     let wr = (if 2 \<le> n then fdiv (Fin (real wins)) (fdiv (Fin (real n)) (Fin 2)) else Fin 0);
     Some \<lparr>final_portfolio_value = fv, n_trades = n, win_rate = wr,
           trades_sample = take 10 (trades st)\<rparr>
   }"

section \<open>Reference definitions and predicates of the statements\<close>

text \<open>
  The exponential moving average as the specification words it: \<open>ema[0] = x[0]\<close> and
  \<open>ema[t] = \<alpha> * x[t] + (1 - \<alpha>) * ema[t-1]\<close>. It is not what \<open>ema\<close> runs; the two are
  compared below.
\<close>

fun ema_spec_from :: "real \<Rightarrow> real \<Rightarrow> real list \<Rightarrow> real list" where
  "ema_spec_from \<alpha> prev [] = []"
| "ema_spec_from \<alpha> prev (x # xs) =
     (let e = \<alpha> * x + (1 - \<alpha>) * prev in e # ema_spec_from \<alpha> e xs)"

fun ema_spec :: "real \<Rightarrow> real list \<Rightarrow> real list" where
  "ema_spec \<alpha> [] = []"
| "ema_spec \<alpha> (x # xs) = x # ema_spec_from \<alpha> x xs"

text \<open>A value that is missing or a number not below zero.\<close>

fun nonneg_or_nan :: "fl \<Rightarrow> bool" where
  "nonneg_or_nan (Fin a) = (0 \<le> a)"
| "nonneg_or_nan NaN = True"
| "nonneg_or_nan x = False"

text \<open>The columns a bar series comes with, and the columns \<open>compute_all_indicators\<close>
  writes.\<close>

definition base_names :: "string list" where
  "base_names = [''open'', ''high'', ''low'', ''close'', ''volume'']"

definition indicator_names :: "string list" where
  "indicator_names = [''RSI'', ''MACD'', ''MACD_signal'', ''MACD_hist'', ''EMA_10'', ''EMA_100'',
     ''VWAP'', ''OBV'', ''TR'', ''ATR_14'']"

text \<open>
  The on-balance volume as the specification words it: the cumulative sum of
  \<open>sign[t] * volume[t]\<close>, the sign of bar \<open>t\<close> being \<open>+1\<close> if \<open>close[t] > close[t-1]\<close> and
  \<open>-1\<close> otherwise; bar 0 has no previous close and the sign \<open>-1\<close>. The volumes are numbers
  of any ring: the reals and the integers, where the sum is the sum, or the 64-bit words,
  where it is taken modulo \<open>2^64\<close>.
\<close>

definition obv_sign_spec :: "series \<Rightarrow> nat \<Rightarrow> 'a::ring_1" where
  "obv_sign_spec close t = (if 0 < t \<and> fgt (close ! t) (close ! (t - 1)) then 1 else - 1)"

definition obv_spec :: "series \<Rightarrow> 'a::ring_1 list \<Rightarrow> 'a list" where
  "obv_spec close volume =
     map (\<lambda>t. sum_list (map (\<lambda>k. obv_sign_spec close k * volume ! k) [0..<Suc t]))
         [0..<length volume]"

text \<open>The \<open>OBV\<close> column of the frame \<open>compute_all_indicators\<close> returns for a frame.\<close>

definition obv_of :: "'t frame \<Rightarrow> series option" where
  "obv_of df = do {
     (r, h) \<leftarrow> compute_all_indicators [df] 0;
     getitem (h ! r) ''OBV''
   }"

section \<open>Example frames\<close>

text \<open>Four bars, timestamps 0 to 3, with the columns \<open>safe_backtest\<close> reads: the first bar
  has the MACD above its signal line and the close above the average, the second one a
  volume above the mean as well, the third one a sell signal.\<close>

definition bars_round_trip :: "nat frame" where
  "bars_round_trip =
     \<lparr>index = [0, 1, 2, 3],
      cols =
        [(''open'', FloatCol [Fin 1, Fin 1, Fin 2, Fin 4]),
         (''close'', FloatCol [Fin 2, Fin 2, Fin 0, Fin 1]),
         (''MACD'', FloatCol [Fin 1, Fin 1, Fin (- 1), Fin 0]),
         (''MACD_signal'', FloatCol [Fin 0, Fin 0, Fin 0, Fin 0]),
         (''EMA_10'', FloatCol [Fin 1, Fin 1, Fin 1, Fin 1]),
         (''volume'', FloatCol [Fin 9, Fin 20, Fin 1, Fin 1])]\<rparr>"

text \<open>The same bars with the open after the buy signal missing.\<close>

definition bars_bad_fill :: "nat frame" where
  "bars_bad_fill =
     \<lparr>index = [0, 1, 2, 3],
      cols =
        [(''open'', FloatCol [Fin 1, Fin 1, NaN, Fin 4]),
         (''close'', FloatCol [Fin 2, Fin 2, Fin 0, Fin 1]),
         (''MACD'', FloatCol [Fin 1, Fin 1, Fin (- 1), Fin 0]),
         (''MACD_signal'', FloatCol [Fin 0, Fin 0, Fin 0, Fin 0]),
         (''EMA_10'', FloatCol [Fin 1, Fin 1, Fin 1, Fin 1]),
         (''volume'', FloatCol [Fin 9, Fin 20, Fin 1, Fin 1])]\<rparr>"

text \<open>Five bars with a buy, a sell and a buy signal, the last two fills at an infinite
  open.\<close>

definition bars_infinite_fills :: "nat frame" where
  "bars_infinite_fills =
     \<lparr>index = [0, 1, 2, 3, 4],
      cols =
        [(''open'', FloatCol [Fin 1, Fin 1, Fin 1, PInf, PInf]),
         (''close'', FloatCol [Fin 1, Fin 2, Fin 0, Fin 2, Fin 1]),
         (''MACD'', FloatCol [Fin 0, Fin 1, Fin (- 1), Fin 1, Fin 0]),
         (''MACD_signal'', FloatCol [Fin 0, Fin 0, Fin 0, Fin 0, Fin 0]),
         (''EMA_10'', FloatCol [Fin 1, Fin 1, Fin 1, Fin 1, Fin 1]),
         (''volume'', FloatCol [Fin 1, Fin 5, Fin 1, Fin 9, Fin 1])]\<rparr>"

text \<open>Three bars as they come from ingestion, the last one without volume.\<close>

definition bars_ohlcv :: "nat frame" where
  "bars_ohlcv =
     \<lparr>index = [0, 1, 2],
      cols =
        [(''open'', FloatCol [Fin 1, Fin 1, Fin 2]),
         (''high'', FloatCol [Fin 3, Fin 3, Fin 3]),
         (''low'', FloatCol [Fin 1, Fin 1, Fin 0]),
         (''close'', FloatCol [Fin 1, Fin 2, Fin 1]),
         (''volume'', FloatCol [Fin 10, Fin 5, Fin 0])]\<rparr>"

text \<open>Three bars read from a file of whole numbers, every column \<open>int64\<close>: falling closes
  and a volume of \<open>2^62\<close> at each bar.\<close>

definition bars_big_volume :: "nat frame" where
  "bars_big_volume =
     \<lparr>index = [0, 1, 2],
      cols =
        [(''open'', IntCol [3, 2, 1]),
         (''high'', IntCol [3, 2, 1]),
         (''low'', IntCol [3, 2, 1]),
         (''close'', IntCol [3, 2, 1]),
         (''volume'', IntCol [4611686018427387904, 4611686018427387904,
                              4611686018427387904])]\<rparr>"

section \<open>Series and numbers: basic facts\<close>

lemma length_zipwith [simp]: "length (zipwith f xs ys) = min (length xs) (length ys)"
  by (simp add: zipwith_def)

lemma nth_zipwith [simp]:
  "i < length xs \<Longrightarrow> i < length ys \<Longrightarrow> zipwith f xs ys ! i = f (xs ! i) (ys ! i)"
  by (simp add: zipwith_def)

lemma length_rolling_mean [simp]: "length (rolling_mean w minp xs) = length xs"
  by (simp add: rolling_mean_def)

lemma flt_irrefl [simp]: "\<not> flt x x"
  by (cases x) simp_all

lemma flt_NaN_right [simp]: "\<not> flt x NaN"
  by (cases x) simp_all

lemma rolling_mean_first:
  assumes "xs \<noteq> []" and "0 < w"
  shows "rolling_mean w (Suc 0) xs ! 0 = inf_to_nan (xs ! 0)"
proof -
  obtain x rest where xs: "xs = x # rest" using assms(1) by (cases xs) auto
  show ?thesis
    using assms(2)
    by (cases x)
       (simp_all add: rolling_mean_def xs upt_rec [of 0] window_at_def prep_values_def
          calc_mean_def inf_to_nan_def)
qed

lemma length_loc_assign [simp]: "length (loc_assign m v sg) = min (length m) (length sg)"
  by (simp add: loc_assign_def)

lemma nth_loc_assign [simp]:
  "i < length m \<Longrightarrow> i < length sg \<Longrightarrow> loc_assign m v sg ! i = (if m ! i then v else sg ! i)"
  by (simp add: loc_assign_def)

lemma upt_split3: "t < n \<Longrightarrow> [0..<n] = [0..<t] @ [t] @ [Suc t..<n]"
proof -
  assume "t < n"
  then have "[0..<n] = [0..<t] @ [t..<n]" using upt_add_eq_append [of 0 t "n - t"] by simp
  also have "[t..<n] = t # [Suc t..<n]" using \<open>t < n\<close> by (simp add: upt_conv_Cons)
  finally show ?thesis by simp
qed

section \<open>The signal\<close>

lemma signals_SomeD:
  assumes "signals df = Some sg"
  obtains volume macd_line macd_signal close ema_10 where
    "getitem df ''volume'' = Some volume" "getitem df ''MACD'' = Some macd_line"
    "getitem df ''MACD_signal'' = Some macd_signal" "getitem df ''close'' = Some close"
    "getitem df ''EMA_10'' = Some ema_10"
    "sg = loc_assign (zipwith (\<and>) (zipwith flt macd_line macd_signal) (zipwith flt close ema_10)) (- 1)
           (loc_assign (zipwith (\<and>) (zipwith (\<and>) (zipwith fgt macd_line macd_signal) (zipwith fgt close ema_10))
                      (zipwith fgt volume (rolling_mean 20 1 volume))) 1 (replicate (length (index df)) 0))"
  using assms by (auto simp: signals_def Let_def split: Option.bind_splits)

text \<open>At the first bar the trailing mean volume is the bar's own volume (or NaN), so the
  volume is not above it.\<close>

lemma first_bar_volume_mask:
  assumes "volume \<noteq> []"
  shows "\<not> fgt (volume ! 0) (rolling_mean 20 1 volume ! 0)"
  using assms by (cases "volume ! 0") (simp_all add: rolling_mean_first fgt_def inf_to_nan_def)

text \<open>
  Claim C10. On every frame, the signal \<open>safe_backtest\<close> derives for the first bar is
  never \<open>+1\<close>: it is \<open>0\<close> or \<open>-1\<close>, because the first bar's volume is compared with a
  trailing mean that is that volume itself. The loop's iteration at the first bar
  therefore leaves the initial portfolio as it is: no buy is triggered by the first bar.
\<close>

theorem first_bar_signal:
  assumes "signals df = Some sg" and "sg \<noteq> []"
  shows "sg ! 0 \<noteq> 1 \<and> (sg ! 0 = 0 \<or> sg ! 0 = - 1) \<and> bt_step df sg 0 initial = Some initial"
proof -
  from assms(1) obtain volume macd_line macd_signal close ema_10 where
    sg: "sg = loc_assign (zipwith (\<and>) (zipwith flt macd_line macd_signal) (zipwith flt close ema_10)) (- 1)
           (loc_assign (zipwith (\<and>) (zipwith (\<and>) (zipwith fgt macd_line macd_signal) (zipwith fgt close ema_10))
                      (zipwith fgt volume (rolling_mean 20 1 volume))) 1 (replicate (length (index df)) 0))"
    by (rule signals_SomeD)
  from assms(2) have len: "0 < length sg" by simp
  then have nz: "volume \<noteq> []" by (auto simp: sg)
  have "sg ! 0 = 0 \<or> sg ! 0 = - 1"
    using len first_bar_volume_mask [OF nz] unfolding sg by simp
  moreover from this have "sg ! 0 \<noteq> 1" by auto
  moreover from this len have "bt_step df sg 0 initial = Some initial"
    by (simp add: bt_step_def iat_def initial_def fgt_def)
  ultimately show ?thesis by blast
qed

theorem first_bar_signal_witness:
  "signals bars_round_trip = Some [0, 1, - 1, 0]
   \<and> [0, 1, - 1, 0 :: int] ! 0 \<noteq> 1
   \<and> bt_step bars_round_trip [0, 1, - 1, 0] 0 initial = Some initial"
proof -
  have h: "signals bars_round_trip = Some [0, 1, - 1, 0]" by code_simp
  show ?thesis using first_bar_signal [OF h] h by simp
qed

section \<open>The loop over the bars\<close>

lemma bt_loop_append:
  "bt_loop df sg (xs @ ys) st =
     (case bt_loop df sg xs st of None \<Rightarrow> None | Some st' \<Rightarrow> bt_loop df sg ys st')"
  by (induction xs arbitrary: st) (auto split: option.splits)

lemma bt_loop_snoc:
  "bt_loop df sg (xs @ [i]) st =
     (case bt_loop df sg xs st of None \<Rightarrow> None | Some st' \<Rightarrow> bt_step df sg i st')"
  by (simp add: bt_loop_append split: option.splits)

lemma bt_step_idle:
  assumes "iat sg i = Some s"
    and "\<not> (s = 1 \<and> position st = Fin 0)" and "\<not> (s = - 1 \<and> fgt (position st) (Fin 0))"
  shows "bt_step df sg i st = Some st"
  using assms by (auto simp: bt_step_def)

lemma bt_step_skip:
  assumes "iat sg i = Some s"
    and "(s = 1 \<and> position st = Fin 0) \<or> (s = - 1 \<and> fgt (position st) (Fin 0))"
    and "getitem df ''open'' = Some opn" and "iat opn (i + 1) = Some price"
    and "isnan price \<or> fle price (Fin 0)"
  shows "bt_step df sg i st = Some st"
  using assms by (auto simp: bt_step_def)

lemma bt_step_buy:
  assumes "iat sg i = Some 1" and "position st = Fin 0"
    and "getitem df ''open'' = Some opn" and "iat opn (i + 1) = Some price"
    and "\<not> isnan price" and "\<not> fle price (Fin 0)" and "iat (index df) (i + 1) = Some ts"
  shows "bt_step df sg i st =
           Some \<lparr>cash = Fin 0, position = fdiv (cash st) price,
                 trades = trades st @ [(''buy'', ts, price)]\<rparr>"
  using assms by (simp add: bt_step_def)

lemma bt_step_sell:
  assumes "iat sg i = Some (- 1)" and "fgt (position st) (Fin 0)"
    and "getitem df ''open'' = Some opn" and "iat opn (i + 1) = Some price"
    and "\<not> isnan price" and "\<not> fle price (Fin 0)" and "iat (index df) (i + 1) = Some ts"
  shows "bt_step df sg i st =
           Some \<lparr>cash = fmul (position st) price, position = Fin 0,
                 trades = trades st @ [(''sell'', ts, price)]\<rparr>"
  using assms by (auto simp: bt_step_def fgt_def)

text \<open>An iteration reads the signal of its own bar only.\<close>

lemma bt_step_update_other:
  "i \<noteq> t \<Longrightarrow> bt_step df (sg[t := v]) i st = bt_step df sg i st"
  by (simp add: bt_step_def iat_def)

lemma bt_loop_update_other:
  "t \<notin> set js \<Longrightarrow> bt_loop df (sg[t := v]) js st = bt_loop df sg js st"
  by (induction js arbitrary: st) (auto simp: bt_step_update_other split: option.splits)

text \<open>
  Claim C2. Let the loop reach bar \<open>t\<close> in state \<open>st\<close> with an actionable signal (\<open>+1\<close>
  while flat, or \<open>-1\<close> while long), and let the next bar's open be NaN or not above zero.
  Then the iteration changes nothing: the state after it is \<open>st\<close>, with the same cash,
  position and trade log. The signal is not retried: the whole pass ends exactly as it
  does when the signal of bar \<open>t\<close> is \<open>0\<close>.
\<close>

theorem invalid_fill_skips_bar:
  assumes "bt_loop df sg [0..<t] initial = Some st"
    and "iat sg t = Some s"
    and "(s = 1 \<and> position st = Fin 0) \<or> (s = - 1 \<and> fgt (position st) (Fin 0))"
    and "getitem df ''open'' = Some opn" and "iat opn (t + 1) = Some price"
    and "isnan price \<or> fle price (Fin 0)"
    and "t < n"
  shows "bt_step df sg t st = Some st
       \<and> bt_loop df sg [0..<Suc t] initial = Some st
       \<and> bt_loop df sg [0..<n] initial = bt_loop df (sg[t := 0]) [0..<n] initial"
proof -
  have step: "bt_step df sg t st = Some st"
    using assms(2-6) by (rule bt_step_skip)
  have tlen: "t < length sg" using assms(2) by (simp add: iat_def split: if_splits)
  have step0: "bt_step df (sg[t := 0]) t st = Some st"
    using tlen by (simp add: bt_step_def iat_def)
  have pre: "bt_loop df (sg[t := 0]) [0..<t] initial = Some st"
    using assms(1) by (simp add: bt_loop_update_other)
  have post: "bt_loop df (sg[t := 0]) [Suc t..<n] st = bt_loop df sg [Suc t..<n] st"
    by (simp add: bt_loop_update_other)
  have "bt_loop df sg [0..<Suc t] initial = Some st"
    using assms(1) step by (simp add: bt_loop_snoc)
  moreover have "bt_loop df sg [0..<n] initial = bt_loop df (sg[t := 0]) [0..<n] initial"
    using assms(1) step step0 pre post
    by (simp add: upt_split3 [OF assms(7)] bt_loop_append)
  ultimately show ?thesis using step by blast
qed

theorem invalid_fill_skips_bar_witness:
  "bt_loop bars_bad_fill [0, 1, - 1, 0] [0..<1] initial = Some initial
   \<and> iat [0, 1, - 1, 0 :: int] 1 = Some 1
   \<and> position (initial :: nat portfolio) = Fin 0
   \<and> getitem bars_bad_fill ''open'' = Some [Fin 1, Fin 1, NaN, Fin 4]
   \<and> iat [Fin 1, Fin 1, NaN, Fin 4] (1 + 1) = Some NaN
   \<and> isnan NaN
   \<and> bt_step bars_bad_fill [0, 1, - 1, 0] 1 initial = Some initial
   \<and> bt_loop bars_bad_fill [0, 1, - 1, 0] [0..<3] initial
       = bt_loop bars_bad_fill ([0, 1, - 1, 0][1 := 0]) [0..<3] initial"
proof -
  have h1: "bt_loop bars_bad_fill [0, 1, - 1, 0] [0..<1] initial = Some initial"
    by code_simp
  have h2: "iat [0, 1, - 1, 0 :: int] 1 = Some 1" by code_simp
  have h3: "(1 = (1::int) \<and> position (initial :: nat portfolio) = Fin 0)
            \<or> (1 = (- 1 :: int) \<and> fgt (position (initial :: nat portfolio)) (Fin 0))"
    by (simp add: initial_def)
  have h4: "getitem bars_bad_fill ''open'' = Some [Fin 1, Fin 1, NaN, Fin 4]"
    by code_simp
  have h5: "iat [Fin 1, Fin 1, NaN, Fin 4] (1 + 1) = Some NaN" by code_simp
  have h6: "isnan NaN \<or> fle NaN (Fin 0)" by simp
  have h7: "(1::nat) < 3" by simp
  show ?thesis
    using invalid_fill_skips_bar [OF h1 h2 h3 h4 h5 h6 h7] h1 h2 h4 h5
    by (simp add: initial_def)
qed

section \<open>The portfolio\<close>

lemma wf_frame_getitem:
  "wf_frame df \<Longrightarrow> getitem df k = Some c \<Longrightarrow> length c = length (index df)"
  by (auto simp: wf_frame_def getitem_def column_of_def list_all_iff dest!: map_of_SomeD)

lemma fle_Fin0_cases: "\<not> isnan x \<Longrightarrow> \<not> fle x (Fin 0) \<Longrightarrow> x \<noteq> PInf \<Longrightarrow> \<exists>p. x = Fin p \<and> 0 < p"
  by (cases x) (simp_all add: fle_def)

lemma iat_in_set: "iat xs i = Some x \<Longrightarrow> x \<in> set xs"
  by (auto simp: iat_def split: if_splits)

lemma bt_step_preserves_nonneg:
  assumes "bt_step df sg i st = Some st'"
    and "\<And>opn. getitem df ''open'' = Some opn \<Longrightarrow> PInf \<notin> set opn"
    and "cash st = Fin c" "0 \<le> c" "position st = Fin p" "0 \<le> p"
  shows "\<exists>c' p'. cash st' = Fin c' \<and> 0 \<le> c' \<and> position st' = Fin p' \<and> 0 \<le> p'"
proof -
  have price: "\<exists>q. price = Fin q \<and> 0 < q"
    if "getitem df ''open'' = Some opn" "iat opn (i + 1) = Some price"
       "\<not> isnan price" "\<not> fle price (Fin 0)" for opn price
  proof -
    have "price \<noteq> PInf" using that(1,2) assms(2) iat_in_set by fastforce
    then show ?thesis using that(3,4) by (rule_tac fle_Fin0_cases)
  qed
  show ?thesis
    using assms(1,3-6)
    by (auto simp: bt_step_def split: Option.bind_splits if_splits dest!: price)
qed

lemma bt_step_total:
  assumes "Suc i < length (index df)" and "length sg = length (index df)"
    and "getitem df ''open'' = Some opn" and "length opn = length (index df)"
  shows "\<exists>st'. bt_step df sg i st = Some st'"
  using assms by (simp add: bt_step_def iat_def)

lemma signals_length:
  assumes "wf_frame df" and "signals df = Some sg"
  shows "length sg = length (index df)"
proof -
  from assms(2) obtain volume macd_line macd_signal close ema_10 where
    c: "getitem df ''volume'' = Some volume" "getitem df ''MACD'' = Some macd_line"
    "getitem df ''MACD_signal'' = Some macd_signal" "getitem df ''close'' = Some close"
    "getitem df ''EMA_10'' = Some ema_10"
    and sg: "sg = loc_assign (zipwith (\<and>) (zipwith flt macd_line macd_signal) (zipwith flt close ema_10)) (- 1)
           (loc_assign (zipwith (\<and>) (zipwith (\<and>) (zipwith fgt macd_line macd_signal) (zipwith fgt close ema_10))
                      (zipwith fgt volume (rolling_mean 20 1 volume))) 1 (replicate (length (index df)) 0))"
    by (rule signals_SomeD)
  from c assms(1) have "length volume = length (index df)" "length macd_line = length (index df)"
    "length macd_signal = length (index df)" "length close = length (index df)"
    "length ema_10 = length (index df)"
    by (simp_all add: wf_frame_getitem)
  then show ?thesis by (simp add: sg)
qed

lemma bt_loop_nonneg:
  assumes "length sg = length (index df)"
    and "getitem df ''open'' = Some opn" and "length opn = length (index df)"
    and "PInf \<notin> set opn" and "t \<le> length (index df) - 1"
  shows "\<exists>st c p. bt_loop df sg [0..<t] initial = Some st
           \<and> cash st = Fin c \<and> 0 \<le> c \<and> position st = Fin p \<and> 0 \<le> p"
  using assms(5)
proof (induction t)
  case 0
  show ?case by (simp add: initial_def)
next
  case (Suc t)
  then obtain st c p where st: "bt_loop df sg [0..<t] initial = Some st"
    "cash st = Fin c" "0 \<le> c" "position st = Fin p" "0 \<le> p" by auto
  from Suc.prems have "Suc t < length (index df)" by simp
  from bt_step_total [OF this assms(1,2,3)] obtain st' where
    st': "bt_step df sg t st = Some st'" by blast
  have "\<exists>c' p'. cash st' = Fin c' \<and> 0 \<le> c' \<and> position st' = Fin p' \<and> 0 \<le> p'"
    using st' _ st(2-5)
  proof (rule bt_step_preserves_nonneg)
    fix o' assume "getitem df ''open'' = Some o'"
    then show "PInf \<notin> set o'" using assms(2,4) by simp
  qed
  then show ?case using st(1) st' by (simp add: bt_loop_snoc)
qed

lemma bt_loop_total:
  assumes "length sg = length (index df)"
    and "getitem df ''open'' = Some opn" and "length opn = length (index df)"
    and "t \<le> length (index df) - 1"
  shows "\<exists>st. bt_loop df sg [0..<t] initial = Some st"
  using assms(4)
proof (induction t)
  case 0
  show ?case by simp
next
  case (Suc t)
  then obtain st where st: "bt_loop df sg [0..<t] initial = Some st" by auto
  from Suc.prems have "Suc t < length (index df)" by simp
  from bt_step_total [OF this assms(1,2,3)] obtain st' where
    "bt_step df sg t st = Some st'" by blast
  then show ?case using st by (simp add: bt_loop_snoc)
qed

lemma price_cases:
  "\<not> isnan x \<Longrightarrow> \<not> fle x (Fin 0) \<Longrightarrow> x = PInf \<or> (\<exists>p. x = Fin p \<and> 0 < p)"
  by (cases x) (simp_all add: fle_def)

lemma bt_step_preserves_not_negative:
  assumes "bt_step df sg i st = Some st'"
    and "\<not> isnan (cash st)" and "\<not> flt (cash st) (Fin 0)" and "\<not> flt (position st) (Fin 0)"
  shows "\<not> isnan (cash st') \<and> \<not> flt (cash st') (Fin 0) \<and> \<not> flt (position st') (Fin 0)"
proof -
  have buy: "\<not> flt (fdiv c price) (Fin 0)"
    if "\<not> isnan c" "\<not> flt c (Fin 0)" "\<not> isnan price" "\<not> fle price (Fin 0)" for c price
    using price_cases [OF that(3,4)] that(1,2)
    by (cases c) (auto simp: inf_of_sign_def divide_less_0_iff)
  have sell: "\<not> isnan (fmul p price) \<and> \<not> flt (fmul p price) (Fin 0)"
    if "fgt p (Fin 0)" "\<not> isnan price" "\<not> fle price (Fin 0)" for p price
    using price_cases [OF that(2,3)] that(1)
    by (cases p) (auto simp: fgt_def inf_of_sign_def mult_less_0_iff)
  show ?thesis
    using assms buy sell
    by (auto simp: bt_step_def split: Option.bind_splits if_splits)
qed

lemma bt_loop_not_negative:
  assumes "bt_loop df sg js initial = Some st"
  shows "\<not> isnan (cash st) \<and> \<not> flt (cash st) (Fin 0) \<and> \<not> flt (position st) (Fin 0)"
proof -
  have "bt_loop df sg js s = Some st \<Longrightarrow>
        \<not> isnan (cash s) \<Longrightarrow> \<not> flt (cash s) (Fin 0) \<Longrightarrow> \<not> flt (position s) (Fin 0) \<Longrightarrow>
        \<not> isnan (cash st) \<and> \<not> flt (cash st) (Fin 0) \<and> \<not> flt (position st) (Fin 0)" for s
  proof (induction js arbitrary: s)
    case Nil
    then show ?case by simp
  next
    case (Cons j js)
    from Cons.prems(1) obtain s' where s': "bt_step df sg j s = Some s'"
      and rest: "bt_loop df sg js s' = Some st"
      by (auto split: option.splits)
    from bt_step_preserves_not_negative [OF s' Cons.prems(2-4)]
    have n: "\<not> isnan (cash s')" "\<not> flt (cash s') (Fin 0)" "\<not> flt (position s') (Fin 0)"
      by simp_all
    show ?case by (rule Cons.IH [OF rest n])
  qed
  from this [OF assms] show ?thesis by (simp add: initial_def)
qed

text \<open>
  Claim C5. Started from cash 100000 and position 0, the pass reaches every bar \<open>t\<close> of
  its range, and after the iterations before \<open>t\<close> the cash is at least zero and the
  position is not negative: the portfolio never goes negative and no short position is
  created. With open prices that are numbers or missing, as in every frame
  \<open>compute_all_indicators\<close> returns, the position is at least zero as well and both are
  finite.
\<close>

theorem portfolio_never_negative:
  assumes "wf_frame df" and "signals df = Some sg"
    and "getitem df ''open'' = Some opn"
    and "t \<le> length (index df) - 1"
  shows "\<exists>st. bt_loop df sg [0..<t] initial = Some st
           \<and> fge (cash st) (Fin 0)
           \<and> \<not> flt (position st) (Fin 0)
           \<and> (PInf \<notin> set opn \<longrightarrow>
                 fge (position st) (Fin 0) \<and> \<not> isinf (cash st) \<and> \<not> isinf (position st))"
proof -
  have lsg: "length sg = length (index df)" using assms(1,2) by (rule signals_length)
  have lop: "length opn = length (index df)" using assms(1,3) by (rule wf_frame_getitem)
  from bt_loop_total [OF lsg assms(3) lop assms(4)] obtain st where
    st: "bt_loop df sg [0..<t] initial = Some st" by blast
  from bt_loop_not_negative [OF st]
  have a: "fge (cash st) (Fin 0)" "\<not> flt (position st) (Fin 0)"
    by (simp_all add: fge_def fle_def)
  have b: "fge (position st) (Fin 0) \<and> \<not> isinf (cash st) \<and> \<not> isinf (position st)"
    if "PInf \<notin> set opn"
  proof -
    from bt_loop_nonneg [OF lsg assms(3) lop that assms(4)] st
    obtain c p where "cash st = Fin c" "0 \<le> c" "position st = Fin p" "0 \<le> p" by auto
    then show ?thesis by (simp add: fge_def fle_def)
  qed
  show ?thesis using st a b by blast
qed

theorem portfolio_never_negative_witness:
  "wf_frame bars_round_trip
   \<and> PInf \<notin> set [Fin 1, Fin 1, Fin 2, Fin 4]
   \<and> (\<exists>st. bt_loop bars_round_trip [0, 1, - 1, 0] [0..<3] initial = Some st
           \<and> fge (cash st) (Fin 0) \<and> fge (position st) (Fin 0))"
proof -
  have h1: "wf_frame bars_round_trip" by code_simp
  have h2: "signals bars_round_trip = Some [0, 1, - 1, 0]" by code_simp
  have h3: "getitem bars_round_trip ''open'' = Some [Fin 1, Fin 1, Fin 2, Fin 4]"
    by code_simp
  have h4: "PInf \<notin> set [Fin 1, Fin 1, Fin 2, Fin 4]" by simp
  have h5: "3 \<le> length (index bars_round_trip) - 1" by code_simp
  show ?thesis
    using portfolio_never_negative [OF h1 h2 h3 h5] h1 h4 by blast
qed

text \<open>The one way to a position that is not a number: a sale filled at an infinite open
  makes the cash infinite, and a purchase filled at an infinite open divides it by
  infinity. The guard of the fill price lets \<open>+inf\<close> pass.\<close>

lemma infinite_fills_example:
  "signals bars_infinite_fills = Some [0, 1, - 1, 1, 0]
   \<and> bt_loop bars_infinite_fills [0, 1, - 1, 1, 0] [0..<4] initial
       = Some \<lparr>cash = Fin 0, position = NaN,
               trades = [(''buy'', 2, Fin 1), (''sell'', 3, PInf), (''buy'', 4, PInf)]\<rparr>"
  by code_simp

section \<open>The backtest returns\<close>

text \<open>On a frame that has the columns it reads, each as long as the index,
  \<open>safe_backtest\<close> raises nothing.\<close>

lemma safe_backtest_returns:
  assumes "wf_frame df" and "signals df = Some sg" and "getitem df ''open'' = Some opn"
  shows "\<exists>r. safe_backtest df = Some r"
proof -
  let ?N = "length (index df)"
  have lsg: "length sg = ?N" using assms(1,2) by (rule signals_length)
  have lop: "length opn = ?N" using assms(1,3) by (rule wf_frame_getitem)
  from bt_loop_total [OF lsg assms(3) lop order_refl] obtain st where
    st: "bt_loop df sg [0..<?N - 1] initial = Some st" by blast
  from assms(2) obtain close where close: "getitem df ''close'' = Some close"
    by (rule signals_SomeD)
  have lcl: "length close = ?N" using assms(1) close by (rule wf_frame_getitem)
  have "\<exists>fv. final_value df st = Some fv"
  proof (cases "truthy (position st)")
    case False
    then show ?thesis by (simp add: final_value_def)
  next
    case True
    have "?N \<noteq> 0"
    proof
      assume "?N = 0"
      with st have "st = initial" by simp
      with True show False by (simp add: truthy_def initial_def)
    qed
    then have "close \<noteq> []" using lcl by auto
    then show ?thesis using True close by (simp add: final_value_def iat_last_def)
  qed
  then obtain fv where "final_value df st = Some fv" by blast
  then show ?thesis using assms(2) st by (simp add: safe_backtest_def Let_def)
qed

section \<open>The win rate\<close>

lemma length_filter_even_upt: "length (filter even [0..<m]) = (m + 1) div 2"
  by (induction m) auto

lemma count_wins_le: "count_wins ts \<le> length ts div 2"
proof -
  have "count_wins ts \<le> length (filter even [0..<length ts - 1])"
    unfolding count_wins_def by (rule length_filter_le)
  also have "\<dots> = length ts div 2"
    by (cases "length ts") (simp_all add: length_filter_even_upt)
  finally show ?thesis .
qed

text \<open>
  Claim C3. Whenever \<open>safe_backtest\<close> returns, its win rate is a number in \<open>[0, 1]\<close>: it
  is \<open>wins / (n_trades / 2)\<close> when there are at least two trades and \<open>0\<close> otherwise,
  where \<open>wins\<close> counts winning pairs of the trade log and is at most \<open>n_trades div 2\<close>,
  so that an unmatched last trade enlarges the denominator only.
\<close>

theorem win_rate_in_unit_interval:
  assumes "safe_backtest df = Some r"
  shows "\<exists>sg st w. signals df = Some sg
           \<and> bt_loop df sg [0..<length (index df) - 1] initial = Some st
           \<and> n_trades r = length (trades st)
           \<and> count_wins (trades st) \<le> n_trades r div 2
           \<and> win_rate r = Fin w
           \<and> w = (if 2 \<le> n_trades r then real (count_wins (trades st)) / (real (n_trades r) / 2) else 0)
           \<and> 0 \<le> w \<and> w \<le> 1"
proof -
  from assms obtain sg st fv where
    sg: "signals df = Some sg"
    and st: "bt_loop df sg [0..<length (index df) - 1] initial = Some st"
    and r: "r = \<lparr>final_portfolio_value = fv, n_trades = length (trades st),
                 win_rate = (if 2 \<le> length (trades st)
                             then fdiv (Fin (real (count_wins (trades st))))
                                       (fdiv (Fin (real (length (trades st)))) (Fin 2))
                             else Fin 0),
                 trades_sample = take 10 (trades st)\<rparr>"
    by (auto simp: safe_backtest_def Let_def split: Option.bind_splits)
  let ?n = "length (trades st)" and ?k = "count_wins (trades st)"
  have le: "?k \<le> ?n div 2" by (rule count_wins_le)
  have bound: "real ?k / (real ?n / 2) \<le> 1" if "2 \<le> ?n"
  proof -
    have "2 * ?k \<le> ?n" using le by simp
    then have "2 * real ?k \<le> real ?n" by (metis of_nat_le_iff of_nat_mult of_nat_numeral)
    moreover have "0 < real ?n" using that by (cases "trades st") simp_all
    ultimately show ?thesis by (simp add: pos_divide_le_eq)
  qed
  show ?thesis
    using sg st le bound by (auto simp: r)
qed

theorem win_rate_in_unit_interval_witness:
  "safe_backtest bars_round_trip =
     Some \<lparr>final_portfolio_value = Fin 200000, n_trades = 2, win_rate = Fin 1,
           trades_sample = [(''buy'', 2, Fin 2), (''sell'', 3, Fin 4)]\<rparr>
   \<and> (\<exists>w. Fin 1 = Fin w \<and> 0 \<le> w \<and> w \<le> 1)"
proof -
  have h: "safe_backtest bars_round_trip =
     Some \<lparr>final_portfolio_value = Fin 200000, n_trades = 2, win_rate = Fin 1,
           trades_sample = [(''buy'', 2, Fin 2), (''sell'', 3, Fin 4)]\<rparr>"
    by code_simp
  show ?thesis
    using win_rate_in_unit_interval [OF h] h by simp
qed

section \<open>A single round trip\<close>

lemma upt_split_at: "a \<le> t \<Longrightarrow> t < n \<Longrightarrow> [a..<n] = [a..<t] @ t # [Suc t..<n]"
proof -
  assume "a \<le> t" "t < n"
  then have "[a..<n] = [a..<t] @ [t..<n]" using upt_add_eq_append [of a t "n - t"] by simp
  also have "[t..<n] = t # [Suc t..<n]" using \<open>t < n\<close> by (simp add: upt_conv_Cons)
  finally show ?thesis .
qed

lemma bt_loop_idle:
  "(\<And>k. k \<in> set js \<Longrightarrow> iat sg k = Some 0) \<Longrightarrow> bt_loop df sg js st = Some st"
  by (induction js arbitrary: st) (simp_all add: bt_step_idle)

text \<open>
  Claim C1. Let the derived signal be \<open>+1\<close> at bar \<open>i\<close> only and \<open>-1\<close> at bar \<open>j\<close> only,
  with \<open>i < j \<le> N - 2\<close>, and let the fill prices \<open>p1 = open[i+1]\<close> and \<open>p2 = open[j+1]\<close>
  be positive numbers. Then \<open>safe_backtest\<close> returns two trades, the final value
  \<open>(100000 / p1) * p2\<close> and the win rate \<open>1\<close> if \<open>p2 > p1\<close>, else \<open>0\<close>.
\<close>

theorem single_round_trip:
  assumes "wf_frame df" and "signals df = Some sg"
    and "i < j" and "j \<le> length (index df) - 2"
    and "sg ! i = 1" and "sg ! j = - 1"
    and "\<forall>k < length sg. k \<noteq> i \<longrightarrow> k \<noteq> j \<longrightarrow> sg ! k = 0"
    and "getitem df ''open'' = Some opn"
    and "opn ! (i + 1) = Fin p1" and "0 < p1" and "opn ! (j + 1) = Fin p2" and "0 < p2"
  shows "\<exists>r. safe_backtest df = Some r
           \<and> n_trades r = 2
           \<and> final_portfolio_value r = Fin (100000 / p1 * p2)
           \<and> win_rate r = Fin (if p1 < p2 then 1 else 0)
           \<and> trades_sample r = [(''buy'', index df ! (i + 1), Fin p1),
                                 (''sell'', index df ! (j + 1), Fin p2)]"
proof -
  let ?N = "length (index df)"
  have lsg: "length sg = ?N" using assms(1,2) by (rule signals_length)
  have lop: "length opn = ?N" using assms(1,8) by (rule wf_frame_getitem)
  have ij: "i < j" "Suc j < ?N" "Suc i < ?N" "j < ?N - 1" "i < ?N - 1"
    using assms(3,4) by auto
  have sig: "iat sg k = Some (sg ! k)" if "k < ?N" for k
    using that lsg by (simp add: iat_def)
  have zero: "iat sg k = Some 0" if "k < ?N" "k \<noteq> i" "k \<noteq> j" for k
    using that sig assms(7) lsg by simp
  have split: "[0..<?N - 1] = [0..<i] @ i # [Suc i..<j] @ j # [Suc j..<?N - 1]"
  proof -
    have "[0..<?N - 1] = [0..<i] @ i # [Suc i..<?N - 1]"
      using ij(5) by (simp add: upt_split_at)
    also have "[Suc i..<?N - 1] = [Suc i..<j] @ j # [Suc j..<?N - 1]"
      using ij(1,4) by (simp add: upt_split_at)
    finally show ?thesis .
  qed
  define s2 :: "'a portfolio" where
    "s2 = \<lparr>cash = Fin 0, position = Fin (100000 / p1),
           trades = [(''buy'', index df ! (i + 1), Fin p1)]\<rparr>"
  define s4 :: "'a portfolio" where
    "s4 = \<lparr>cash = Fin (100000 / p1 * p2), position = Fin 0,
           trades = [(''buy'', index df ! (i + 1), Fin p1),
                     (''sell'', index df ! (j + 1), Fin p2)]\<rparr>"
  have a1: "bt_loop df sg [0..<i] initial = Some initial"
    by (rule bt_loop_idle, rule zero) (use ij in auto)
  have a2: "bt_step df sg i initial = Some s2"
    using ij assms(5,8,9,10) sig [of i] lop
    by (simp add: bt_step_def initial_def iat_def fle_def s2_def)
  have a3: "bt_loop df sg [Suc i..<j] s2 = Some s2"
    by (rule bt_loop_idle, rule zero) (use ij in auto)
  have a4: "bt_step df sg j s2 = Some s4"
    using ij assms(6,8,10,11,12) sig [of j] lop
    by (simp add: bt_step_def iat_def fle_def fgt_def s2_def s4_def)
  have a5: "bt_loop df sg [Suc j..<?N - 1] s4 = Some s4"
    by (rule bt_loop_idle, rule zero) (use ij in auto)
  have loop: "bt_loop df sg [0..<?N - 1] initial = Some s4"
    unfolding split using a1 a2 a3 a4 a5 by (simp add: bt_loop_append)
  have fv: "final_value df s4 = Some (Fin (100000 / p1 * p2))"
    by (simp add: final_value_def truthy_def s4_def)
  have wins: "count_wins (trades s4) = (if p1 < p2 then 1 else 0)"
    by (simp add: count_wins_def s4_def is_win_def fgt_def upt_rec [of 0])
  show ?thesis
    using assms(2) loop fv wins
    by (simp add: safe_backtest_def s4_def)
qed


theorem single_round_trip_witness:
  "wf_frame bars_round_trip
   \<and> signals bars_round_trip = Some [0, 1, - 1, 0]
   \<and> getitem bars_round_trip ''open'' = Some [Fin 1, Fin 1, Fin 2, Fin 4]
   \<and> (\<exists>r. safe_backtest bars_round_trip = Some r
          \<and> n_trades r = 2
          \<and> final_portfolio_value r = Fin (100000 / 2 * 4)
          \<and> win_rate r = Fin 1)"
proof -
  have h1: "wf_frame bars_round_trip" by code_simp
  have h2: "signals bars_round_trip = Some [0, 1, - 1, 0]" by code_simp
  have h3: "(1::nat) < 2" by simp
  have h4: "2 \<le> length (index bars_round_trip) - 2" by code_simp
  have h5: "[0, 1, - 1, 0 :: int] ! 1 = 1" by simp
  have h6: "[0, 1, - 1, 0 :: int] ! 2 = - 1" by simp
  have h7: "\<forall>k < length [0, 1, - 1, 0 :: int]. k \<noteq> 1 \<longrightarrow> k \<noteq> 2 \<longrightarrow> [0, 1, - 1, 0 :: int] ! k = 0"
    by (auto simp: less_Suc_eq nth_Cons')
  have h8: "getitem bars_round_trip ''open'' = Some [Fin 1, Fin 1, Fin 2, Fin 4]"
    by code_simp
  have h9: "[Fin 1, Fin 1, Fin 2, Fin 4] ! (1 + 1) = Fin 2" by simp
  have h10: "(0::real) < 2" by simp
  have h11: "[Fin 1, Fin 1, Fin 2, Fin 4] ! (2 + 1) = Fin 4" by simp
  have h12: "(0::real) < 4" by simp
  show ?thesis
    using single_round_trip [OF h1 h2 h3 h4 h5 h6 h7 h8 h9 h10 h11 h12] h1 h2 h8
    by auto
qed

section \<open>The exponential moving average\<close>

lemma prep_values_Fin [simp]: "prep_values (map Fin rs) = map Fin rs"
  by (simp add: prep_values_def inf_to_nan_def)

lemma ewm_loop_Fin:
  "ewm_loop \<alpha> (Fin w, 1) (map Fin rs) = map Fin (ema_spec_from \<alpha> w rs)"
proof (induction rs arbitrary: w)
  case Nil
  show ?case by simp
next
  case (Cons r rs)
  have "(1 - \<alpha>) * w + \<alpha> * r = \<alpha> * r + (1 - \<alpha>) * w" by simp
  moreover have "w = r \<Longrightarrow> w = \<alpha> * r + (1 - \<alpha>) * w" by (simp add: algebra_simps)
  ultimately show ?case using Cons.IH by (auto simp: Let_def add.commute)
qed

lemma ewm_core_Fin: "ewm_core \<alpha> (map Fin rs) = map Fin (ema_spec \<alpha> rs)"
  by (cases rs) (simp_all add: ewm_loop_Fin)

lemma length_ema_spec_from [simp]: "length (ema_spec_from \<alpha> w rs) = length rs"
  by (induction rs arbitrary: w) (simp_all add: Let_def)

lemma length_ema_spec [simp]: "length (ema_spec \<alpha> rs) = length rs"
  by (cases rs) simp_all

lemma ema_spec_from_nth:
  "t < length rs \<Longrightarrow>
   ema_spec_from \<alpha> w rs ! t =
     \<alpha> * rs ! t + (1 - \<alpha>) * (if t = 0 then w else ema_spec_from \<alpha> w rs ! (t - 1))"
proof (induction rs arbitrary: w t)
  case Nil
  then show ?case by simp
next
  case (Cons r rs)
  show ?case
  proof (cases t)
    case 0
    then show ?thesis by (simp add: Let_def)
  next
    case (Suc u)
    with Cons.prems have "u < length rs" by simp
    from Cons.IH [OF this, of "\<alpha> * r + (1 - \<alpha>) * w"] Suc
    show ?thesis by (cases u) (simp_all add: Let_def)
  qed
qed

lemma ema_spec_nth:
  assumes "0 < t" and "t < length rs"
  shows "ema_spec \<alpha> rs ! t = \<alpha> * rs ! t + (1 - \<alpha>) * ema_spec \<alpha> rs ! (t - 1)"
proof -
  obtain r rest where rs: "rs = r # rest" using assms(2) by (cases rs) auto
  obtain u where t: "t = Suc u" using assms(1) by (cases t) auto
  have "u < length rest" using assms(2) rs t by simp
  from ema_spec_from_nth [OF this, of \<alpha> r] show ?thesis
    by (cases u) (simp_all add: rs t)
qed

text \<open>
  Claim C4. For every series of numbers \<open>x\<close> and every span \<open>s \<ge> 1\<close>, \<open>ema\<close> returns the
  series of the first-value-seeded recursion: its first value is \<open>x[0]\<close> and, with
  \<open>\<alpha> = 2 / (s + 1)\<close>, its value at every later \<open>t\<close> is \<open>\<alpha> * x[t] + (1 - \<alpha>) * ema[t-1]\<close>.
  What pandas runs (a weighted average renormalised at every bar) equals the reference
  recursion \<open>ema_spec\<close>.
\<close>

theorem ema_recursion:
  assumes "1 \<le> s"
  shows "\<exists>ys. ema (map Fin rs) s = Some (map Fin ys)
           \<and> ys = ema_spec (2 / (real_of_int s + 1)) rs
           \<and> length ys = length rs
           \<and> (rs \<noteq> [] \<longrightarrow> ys ! 0 = rs ! 0)
           \<and> (\<forall>t. 0 < t \<and> t < length rs \<longrightarrow>
                 ys ! t = 2 / (real_of_int s + 1) * rs ! t
                          + (1 - 2 / (real_of_int s + 1)) * ys ! (t - 1))"
proof -
  have "ema (map Fin rs) s = Some (map Fin (ema_spec (2 / (real_of_int s + 1)) rs))"
    using assms by (simp add: ema_def ewm_mean_span_def ewm_core_Fin)
  moreover have "rs \<noteq> [] \<longrightarrow> ema_spec (2 / (real_of_int s + 1)) rs ! 0 = rs ! 0"
    by (cases rs) simp_all
  ultimately show ?thesis by (simp add: ema_spec_nth)
qed

theorem ema_recursion_witness:
  "(1::int) \<le> 3
   \<and> ema (map Fin [1, 2, 4]) 3 = Some (map Fin (ema_spec (2 / (real_of_int 3 + 1)) [1, 2, 4]))
   \<and> ema_spec (2 / (real_of_int 3 + 1)) [1, 2, 4] ! 1
       = 2 / (real_of_int 3 + 1) * [1, 2, 4] ! 1
         + (1 - 2 / (real_of_int 3 + 1)) * ema_spec (2 / (real_of_int 3 + 1)) [1, 2, 4] ! (1 - 1)"
proof -
  have h: "(1::int) \<le> 3" by simp
  have t: "(0::nat) < 1 \<and> 1 < length [1, 2, 4 :: real]" by simp
  from ema_recursion [OF h, of "[1, 2, 4]"] t h show ?thesis by blast
qed

text \<open>A missing value is carried over: the average keeps its value there, and the next
  observation is weighed against an average that has decayed twice.\<close>

lemma ema_missing_value_example:
  "ema [Fin 1, NaN, Fin 4] 3 = Some [Fin 1, Fin 1, Fin 3]"
  by code_simp

section \<open>The relative strength index\<close>

lemma set_zipwith:
  "v \<in> set (zipwith f xs ys) \<Longrightarrow> \<exists>x\<in>set xs. \<exists>y\<in>set ys. v = f x y"
  by (auto simp: zipwith_def dest: set_zip_leftD set_zip_rightD)

lemma length_shift [simp]: "length (shift xs) = length xs"
  by (cases xs) simp_all

lemma length_diff [simp]: "length (diff xs) = length xs"
  by (simp add: diff_def)

lemma length_ewm_loop [simp]: "length (ewm_loop \<alpha> st vals) = length vals"
  by (induction vals arbitrary: st) (simp_all add: Let_def)

lemma length_ewm_core [simp]: "length (ewm_core \<alpha> vals) = length vals"
  by (cases vals) simp_all

lemma ewm_step_nonneg:
  assumes "0 < \<alpha>" and "\<alpha> \<le> 1" and "0 \<le> ow" and "nonneg_or_nan w" and "nonneg_or_nan c"
  shows "nonneg_or_nan (fst (ewm_step \<alpha> (w, ow) c)) \<and> 0 \<le> snd (ewm_step \<alpha> (w, ow) c)"
proof (cases w)
  case (Fin a)
  show ?thesis
  proof (cases c)
    case (Fin b)
    have "0 \<le> (ow * (1 - \<alpha>) * a + \<alpha> * b) / (ow * (1 - \<alpha>) + \<alpha>)"
      using assms \<open>w = Fin a\<close> Fin by (intro divide_nonneg_nonneg add_nonneg_nonneg mult_nonneg_nonneg) simp_all
    then show ?thesis using assms \<open>w = Fin a\<close> Fin by (simp add: Let_def)
  qed (use assms Fin in simp_all)
qed (use assms in simp_all)

lemma ewm_loop_nonneg:
  assumes "0 < \<alpha>" and "\<alpha> \<le> 1"
  shows "0 \<le> ow \<Longrightarrow> nonneg_or_nan w \<Longrightarrow> list_all nonneg_or_nan vals
         \<Longrightarrow> list_all nonneg_or_nan (ewm_loop \<alpha> (w, ow) vals)"
proof (induction vals arbitrary: w ow)
  case Nil
  show ?case by simp
next
  case (Cons c vals)
  obtain w' ow' where st: "ewm_step \<alpha> (w, ow) c = (w', ow')" by (cases "ewm_step \<alpha> (w, ow) c")
  from Cons.prems ewm_step_nonneg [OF assms, of ow w c] st
  have "nonneg_or_nan w'" "0 \<le> ow'" by simp_all
  with Cons show ?case by (simp add: st)
qed

lemma ewm_core_nonneg:
  assumes "0 < \<alpha>" and "\<alpha> \<le> 1" and "list_all nonneg_or_nan vals"
  shows "list_all nonneg_or_nan (ewm_core \<alpha> vals)"
  using assms by (cases vals) (simp_all add: ewm_loop_nonneg)

lemma up_nonneg:
  "nonneg_or_nan (inf_to_nan (if isnan (if flt x (Fin 0) then Fin 0 else x) then Fin 0
                              else (if flt x (Fin 0) then Fin 0 else x)))"
  by (cases x) (simp_all add: inf_to_nan_def)

lemma down_nonneg:
  "nonneg_or_nan (inf_to_nan (fmul (Fin (- 1))
      (if isnan (if fgt x (Fin 0) then Fin 0 else x) then Fin 0
       else (if fgt x (Fin 0) then Fin 0 else x))))"
  by (cases x) (simp_all add: inf_to_nan_def fgt_def inf_of_sign_def)

lemma rsi_value_range:
  assumes "nonneg_or_nan u" and "nonneg_or_nan d"
  defines "v \<equiv> fsub (Fin 100) (fdiv (Fin 100) (fadd (Fin 1) (fdiv u (if d = Fin 0 then NaN else d))))"
  shows "\<exists>r. (if isnan v then Fin 50 else v) = Fin r \<and> 0 \<le> r \<and> r < 100"
proof (cases "\<exists>a b. u = Fin a \<and> d = Fin b \<and> b \<noteq> 0")
  case True
  then obtain a b where ab: "u = Fin a" "d = Fin b" "b \<noteq> 0" by blast
  with assms(1,2) have pos: "0 \<le> a" "0 < b" by simp_all
  then have q: "0 \<le> a / b" by simp
  then have "0 < 1 + a / b" by simp
  moreover from this have "100 / (1 + a / b) \<le> 100" using q by (simp add: divide_le_eq)
  moreover have "0 < 100 / (1 + a / b)" using \<open>0 < 1 + a / b\<close> by simp
  ultimately show ?thesis using ab by (simp add: v_def fsub_def)
next
  case False
  then have "v = NaN"
    using assms(1,2) by (cases u; cases d) (simp_all add: v_def fsub_def)
  then show ?thesis by simp
qed

text \<open>
  Claim C6. For every close series, each value \<open>compute_rsi\<close> returns is a number in
  \<open>[0, 100]\<close>: the smoothed up and down moves are not negative, so a defined value
  \<open>100 - 100 / (1 + RS)\<close> lies in \<open>[0, 100)\<close>, and an undefined one is replaced by 50.
  The function returns for every length of at least 1 (14 in the program).
\<close>

theorem rsi_range:
  "(1 \<le> n \<longrightarrow> compute_rsi close n \<noteq> None)
   \<and> (\<forall>rsi. compute_rsi close n = Some rsi \<longrightarrow>
         length rsi = length close
         \<and> (\<forall>v \<in> set rsi. \<exists>r. v = Fin r \<and> 0 \<le> r \<and> r \<le> 100))"
proof (cases "int (length close) < n + 1")
  case True
  then show ?thesis by (auto simp: compute_rsi_def)
next
  case False
  let ?\<alpha> = "1 / real_of_int n"
  let ?up = "fillna (Fin 0) (clip_lower (Fin 0) (diff close))"
  let ?down = "map (fmul (Fin (- 1))) (fillna (Fin 0) (clip_upper (Fin 0) (diff close)))"
  show ?thesis
  proof (cases "0 < ?\<alpha> \<and> ?\<alpha> \<le> 1")
    case bad: False
    then have "compute_rsi close n = None"
      using False by (simp add: compute_rsi_def ewm_mean_alpha_def)
    moreover have "\<not> 1 \<le> n" using bad by (auto simp: divide_le_eq)
    ultimately show ?thesis by simp
  next
    case ok: True
    let ?ru = "ewm_core ?\<alpha> (prep_values ?up)"
    let ?rd = "ewm_core ?\<alpha> (prep_values ?down)"
    let ?rsi = "fillna (Fin 50)
       (map (\<lambda>r. fsub (Fin 100) (fdiv (Fin 100) (fadd (Fin 1) r)))
            (zipwith fdiv ?ru (replace_zero ?rd)))"
    have eq: "compute_rsi close n = Some ?rsi"
      using False ok by (simp add: compute_rsi_def ewm_mean_alpha_def Let_def)
    have up: "list_all nonneg_or_nan (prep_values ?up)"
      by (simp add: list_all_iff prep_values_def fillna_def clip_lower_def up_nonneg)
    have down: "list_all nonneg_or_nan (prep_values ?down)"
      by (simp add: list_all_iff prep_values_def fillna_def clip_upper_def down_nonneg)
    have ru: "list_all nonneg_or_nan ?ru" using ok up by (simp add: ewm_core_nonneg)
    have rd: "list_all nonneg_or_nan ?rd" using ok down by (simp add: ewm_core_nonneg)
    have len: "length ?rsi = length close"
      by (simp add: fillna_def replace_zero_def prep_values_def clip_lower_def clip_upper_def)
    have rng: "\<exists>r. v = Fin r \<and> 0 \<le> r \<and> r \<le> 100" if "v \<in> set ?rsi" for v
    proof -
      from that obtain q where q: "q \<in> set (zipwith fdiv ?ru (replace_zero ?rd))"
        and v: "v = (let w = fsub (Fin 100) (fdiv (Fin 100) (fadd (Fin 1) q)) in if isnan w then Fin 50 else w)"
        by (auto simp: fillna_def Let_def)
      from set_zipwith [OF q] obtain u d where ud: "u \<in> set ?ru" "d \<in> set ?rd"
        "q = fdiv u (if d = Fin 0 then NaN else d)"
        by (auto simp: replace_zero_def)
      have "nonneg_or_nan u" "nonneg_or_nan d" using ud(1,2) ru rd by (simp_all add: list_all_iff)
      from rsi_value_range [OF this] show ?thesis
        unfolding v ud(3) Let_def by force
    qed
    show ?thesis using eq len rng by simp
  qed
qed

theorem rsi_range_witness:
  "(1::int) \<le> 3
   \<and> compute_rsi (map Fin [1, 2, 3, 2, 1, 4]) 3
       = Some [Fin 50, Fin 50, Fin 50, Fin (1000 / 19), Fin (400 / 13), Fin (28300 / 373)]
   \<and> (\<exists>r. Fin (28300 / 373) = Fin r \<and> 0 \<le> r \<and> r \<le> 100)"
proof -
  have h: "compute_rsi (map Fin [1, 2, 3, 2, 1, 4]) 3
       = Some [Fin 50, Fin 50, Fin 50, Fin (1000 / 19), Fin (400 / 13), Fin (28300 / 373)]"
    by code_simp
  have m: "Fin (28300 / 373)
       \<in> set [Fin 50, Fin 50, Fin 50, Fin (1000 / 19), Fin (400 / 13), Fin (28300 / 373)]"
    by simp
  note rsi_range [of 3 "map Fin [1, 2, 3, 2, 1, 4]", THEN conjunct2, THEN spec, THEN mp, OF h,
      THEN conjunct2, THEN bspec, OF m]
  then show ?thesis using h by (intro conjI) simp_all
qed

section \<open>The store and the columns of the result\<close>

lemma copy_eq: "copy h a = (length h, h @ [h ! a])"
  by (simp add: copy_def alloc_def)

lemma setitem_last:
  "setitem (h @ [f]) (length h) k v = h @ [f\<lparr>cols := AList.update k v (cols f)\<rparr>]"
  by (simp add: setitem_def)

lemma replace_inf_last:
  "replace_inf (h @ [f]) (length h) =
     (Suc (length h), h @ [f, f\<lparr>cols := map (\<lambda>(k, c). (k, scrub_column c)) (cols f)\<rparr>])"
  by (simp add: replace_inf_def alloc_def)

lemma getitem_column: "column_of df k = Some c \<Longrightarrow> getitem df k = Some (as_float c)"
  by (simp add: getitem_def)

lemma getitem_SomeD:
  "getitem df k = Some xs \<Longrightarrow> \<exists>c. column_of df k = Some c \<and> as_float c = xs"
  by (auto simp: getitem_def)

lemma column_of_update_same:
  "column_of (f\<lparr>cols := AList.update k v c\<rparr>) k = Some v"
  by (simp add: column_of_def update_conv')

lemma column_of_update_other:
  "k' \<noteq> k \<Longrightarrow>
   column_of (f\<lparr>cols := AList.update k v c\<rparr>) k' = column_of (f\<lparr>cols := c\<rparr>) k'"
  by (simp add: column_of_def update_conv')

lemma getitem_update_same:
  "getitem (f\<lparr>cols := AList.update k v c\<rparr>) k = Some (as_float v)"
  by (simp add: getitem_def column_of_update_same)

lemma getitem_update_other:
  "k' \<noteq> k \<Longrightarrow> getitem (f\<lparr>cols := AList.update k v c\<rparr>) k' = getitem (f\<lparr>cols := c\<rparr>) k'"
  by (simp add: getitem_def column_of_update_other)

lemma macd_update_other:
  "k \<noteq> ''close'' \<Longrightarrow> macd (f\<lparr>cols := AList.update k v c\<rparr>) a b s = macd (f\<lparr>cols := c\<rparr>) a b s"
  by (simp add: macd_def getitem_update_other)

lemma compute_vwap_update_other:
  "k \<noteq> ''close'' \<Longrightarrow> k \<noteq> ''high'' \<Longrightarrow> k \<noteq> ''low'' \<Longrightarrow> k \<noteq> ''volume'' \<Longrightarrow>
   compute_vwap (f\<lparr>cols := AList.update k v c\<rparr>) = compute_vwap (f\<lparr>cols := c\<rparr>)"
  by (simp add: compute_vwap_def getitem_update_other column_of_update_other)

lemma compute_all_indicators_store:
  assumes "column_of df ''close'' = Some cc"
    and "column_of df ''high'' = Some hc"
    and "column_of df ''low'' = Some lc"
    and "column_of df ''volume'' = Some vc"
    and "compute_rsi (as_float cc) 14 = Some rsi"
    and "macd df 12 26 9 = Some (ml, ms, mh)"
    and "ema (as_float cc) 10 = Some e10"
    and "ema (as_float cc) 100 = Some e100"
    and "compute_vwap df = Some vwap"
    and "df = h ! a"
  defines "obv \<equiv> col_mul (IntCol (map obv_sign (fillna (Fin 0) (diff (as_float cc))))) vc"
  defines "tr \<equiv> row_max3 (zipwith fsub (as_float hc) (as_float lc))
                         (map fabs (zipwith fsub (as_float hc) (shift (as_float cc))))
                         (map fabs (zipwith fsub (as_float lc) (shift (as_float cc))))"
  defines "mid \<equiv> df\<lparr>cols :=
      AList.update ''ATR_14'' (FloatCol (rolling_mean 14 1 tr))
     (AList.update ''TR'' (FloatCol tr)
     (AList.update ''OBV'' (col_cumsum obv)
     (AList.update ''OBV'' obv
     (AList.update ''VWAP'' (FloatCol vwap)
     (AList.update ''EMA_100'' (FloatCol e100)
     (AList.update ''EMA_10'' (FloatCol e10)
     (AList.update ''MACD_hist'' (FloatCol mh)
     (AList.update ''MACD_signal'' (FloatCol ms)
     (AList.update ''MACD'' (FloatCol ml)
     (AList.update ''RSI'' (FloatCol rsi) (cols df)))))))))))\<rparr>"
  shows "compute_all_indicators h a =
           Some (Suc (length h),
                 h @ [mid, mid\<lparr>cols := map (\<lambda>(k, c). (k, scrub_column c)) (cols mid)\<rparr>])"
proof -
  have g: "getitem df ''close'' = Some (as_float cc)" "getitem df ''high'' = Some (as_float hc)"
    "getitem df ''low'' = Some (as_float lc)"
    using assms(1-3) by (simp_all add: getitem_column)
  show ?thesis
    using assms(4-9) g unfolding assms(10) obv_def tr_def mid_def
    by (simp add: compute_all_indicators_def copy_eq setitem_last replace_inf_last
        getitem_update_same getitem_update_other column_of_update_same column_of_update_other
        macd_update_other compute_vwap_update_other)
qed

lemma length_cumsum_from [simp]: "length (cumsum_from acc xs) = length xs"
  by (induction xs arbitrary: acc) (simp_all add: Let_def)

lemma length_cumsum [simp]: "length (cumsum xs) = length xs"
  by (simp add: cumsum_def)

lemma length_int_cumsum_from [simp]: "length (int_cumsum_from acc ws) = length ws"
  by (induction ws arbitrary: acc) simp_all

lemma length_col_cumsum [simp]: "length (as_float (col_cumsum c)) = length (as_float c)"
  by (cases c) simp_all

lemma length_col_add [simp]:
  "length (as_float (col_add x y)) = min (length (as_float x)) (length (as_float y))"
  by (cases x; cases y) simp_all

lemma length_col_mul [simp]:
  "length (as_float (col_mul x y)) = min (length (as_float x)) (length (as_float y))"
  by (cases x; cases y) simp_all

lemma as_float_scrub_column [simp]: "as_float (scrub_column c) = map inf_to_nan (as_float c)"
  by (cases c) (simp_all add: int_to_float_def inf_to_nan_def)

lemma length_ffill_from [simp]: "length (ffill_from p xs) = length xs"
  by (induction xs arbitrary: p) simp_all

lemma length_bfill_ffill [simp]: "length (bfill (ffill xs)) = length xs"
  by (simp add: bfill_def ffill_def)

lemma length_row_max3 [simp]:
  "length (row_max3 xs ys zs) = min (length xs) (min (length ys) (length zs))"
  by (simp add: row_max3_def)

lemma length_prep_values [simp]: "length (prep_values xs) = length xs"
  by (simp add: prep_values_def)

lemma length_fillna [simp]: "length (fillna v xs) = length xs"
  by (simp add: fillna_def)

lemma length_replace_zero [simp]: "length (replace_zero xs) = length xs"
  by (simp add: replace_zero_def)

lemma ema_total:
  "1 \<le> s \<Longrightarrow> \<exists>e. ema xs s = Some e \<and> length e = length xs"
  by (simp add: ema_def ewm_mean_span_def)

lemma macd_total:
  assumes "getitem df ''close'' = Some close"
  shows "\<exists>ml ms mh. macd df 12 26 9 = Some (ml, ms, mh)
           \<and> length ml = length close \<and> length ms = length close \<and> length mh = length close"
  using assms by (simp add: macd_def ema_def ewm_mean_span_def Let_def)

lemma compute_vwap_total:
  assumes "column_of df ''close'' = Some cc" and "column_of df ''high'' = Some hc"
    and "column_of df ''low'' = Some lc" and "column_of df ''volume'' = Some vc"
    and "length (as_float cc) = n" and "length (as_float hc) = n"
    and "length (as_float lc) = n" and "length (as_float vc) = n"
  shows "\<exists>vwap. compute_vwap df = Some vwap \<and> length vwap = n"
  using assms by (simp add: compute_vwap_def getitem_column Let_def)

lemma compute_rsi_14_total:
  "\<exists>rsi. compute_rsi close 14 = Some rsi \<and> length rsi = length close"
  by (simp add: compute_rsi_def ewm_mean_alpha_def Let_def clip_lower_def clip_upper_def)

lemma list_all_update:
  "P (k, v) \<Longrightarrow> list_all P al \<Longrightarrow> list_all P (AList.update k v al)"
  by (induction al) auto

lemma column_of_scrubbed:
  "column_of (f\<lparr>cols := map (\<lambda>(k, c). (k, g c)) c0\<rparr>) k
     = map_option g (column_of (f\<lparr>cols := c0\<rparr>) k)"
  by (induction c0) (auto simp: column_of_def)

lemma getitem_scrubbed:
  "getitem (f\<lparr>cols := map (\<lambda>(k, c). (k, scrub_column c)) c0\<rparr>) k
     = map_option (map inf_to_nan) (getitem (f\<lparr>cols := c0\<rparr>) k)"
  by (simp add: getitem_def column_of_scrubbed option.map_comp comp_def)

lemma wf_frame_update:
  "length (as_float v) = length (index f) \<Longrightarrow> wf_frame (f\<lparr>cols := c\<rparr>)
   \<Longrightarrow> wf_frame (f\<lparr>cols := AList.update k v c\<rparr>)"
  by (simp add: wf_frame_def list_all_update distinct_update)

lemma wf_frame_scrubbed:
  "wf_frame (f\<lparr>cols := map (\<lambda>(k, c). (k, scrub_column c)) c0\<rparr>) = wf_frame (f\<lparr>cols := c0\<rparr>)"
proof -
  have keys: "map fst (map (\<lambda>(k, c). (k, scrub_column c)) c0) = map fst c0"
    by (induction c0) auto
  have lens: "list_all (\<lambda>(k, c). length (as_float c) = n) (map (\<lambda>(k, c). (k, scrub_column c)) c0)
                 = list_all (\<lambda>(k, c). length (as_float c) = n) c0" for n
    by (induction c0) auto
  show ?thesis by (simp add: wf_frame_def keys lens del: map_map as_float_scrub_column)
qed

lemma no_inf_scrubbed:
  "(k, c) \<in> set (map (\<lambda>(k, c). (k, scrub_column c)) c0) \<Longrightarrow> x \<in> set (as_float c)
   \<Longrightarrow> \<not> isinf x"
  by (auto simp: inf_to_nan_def split: if_splits)

lemma scrub_column_same:
  "\<forall>x \<in> set (as_float c). \<not> isinf x \<Longrightarrow> scrub_column c = c"
  by (cases c) (simp_all add: inf_to_nan_def map_idI)

lemma compute_all_indicators_columns:
  assumes "wf_frame (h ! a)"
    and "getitem (h ! a) ''close'' = Some close"
    and "getitem (h ! a) ''high'' = Some high"
    and "getitem (h ! a) ''low'' = Some low"
    and "getitem (h ! a) ''volume'' = Some volume"
  defines "tr \<equiv> row_max3 (zipwith fsub high low)
                         (map fabs (zipwith fsub high (shift close)))
                         (map fabs (zipwith fsub low (shift close)))"
  shows "\<exists>mid out. compute_all_indicators h a = Some (Suc (length h), h @ [mid, out])
      \<and> index out = index (h ! a)
      \<and> wf_frame out
      \<and> getitem out ''TR'' = Some (map inf_to_nan tr)
      \<and> getitem out ''ATR_14'' = Some (map inf_to_nan (rolling_mean 14 1 tr))
      \<and> (\<exists>vc. column_of (h ! a) ''volume'' = Some vc
            \<and> column_of out ''OBV''
                = Some (scrub_column (col_cumsum
                    (col_mul (IntCol (map obv_sign (fillna (Fin 0) (diff close)))) vc))))
      \<and> (\<forall>k. k \<notin> set indicator_names \<longrightarrow>
            column_of out k = map_option scrub_column (column_of (h ! a) k))
      \<and> (\<forall>k. k \<notin> set indicator_names \<longrightarrow>
            getitem out k = map_option (map inf_to_nan) (getitem (h ! a) k))
      \<and> (\<forall>k. getitem out k \<noteq> None \<longleftrightarrow> k \<in> set indicator_names \<or> getitem (h ! a) k \<noteq> None)
      \<and> (\<forall>(k, c) \<in> set (cols out). \<forall>x \<in> set (as_float c). \<not> isinf x)"
proof -
  let ?df = "h ! a" and ?n = "length (index (h ! a))"
  from assms(2-5) obtain cc hc lc vc where
    c: "column_of ?df ''close'' = Some cc" "column_of ?df ''high'' = Some hc"
       "column_of ?df ''low'' = Some lc" "column_of ?df ''volume'' = Some vc"
    and v: "as_float cc = close" "as_float hc = high" "as_float lc = low" "as_float vc = volume"
    by (auto dest!: getitem_SomeD)
  let ?obv = "col_mul (IntCol (map obv_sign (fillna (Fin 0) (diff close)))) vc"
  have len: "length close = ?n" "length high = ?n" "length low = ?n" "length volume = ?n"
    using assms(1-5) by (simp_all add: wf_frame_getitem)
  obtain rsi where rsi: "compute_rsi close 14 = Some rsi" "length rsi = ?n"
    using compute_rsi_14_total [of close] len by auto
  obtain ml ms mh where macd: "macd ?df 12 26 9 = Some (ml, ms, mh)"
    "length ml = ?n" "length ms = ?n" "length mh = ?n"
    using macd_total [OF assms(2)] len by auto
  obtain e10 where e10: "ema close 10 = Some e10" "length e10 = ?n"
    using ema_total [of 10 close] len by auto
  obtain e100 where e100: "ema close 100 = Some e100" "length e100 = ?n"
    using ema_total [of 100 close] len by auto
  obtain vwap where vwap: "compute_vwap ?df = Some vwap" "length vwap = ?n"
    using compute_vwap_total [OF c, of ?n] len v by auto
  define mid where "mid = ?df\<lparr>cols :=
      AList.update ''ATR_14'' (FloatCol (rolling_mean 14 1 tr))
     (AList.update ''TR'' (FloatCol tr)
     (AList.update ''OBV'' (col_cumsum ?obv)
     (AList.update ''OBV'' ?obv
     (AList.update ''VWAP'' (FloatCol vwap)
     (AList.update ''EMA_100'' (FloatCol e100)
     (AList.update ''EMA_10'' (FloatCol e10)
     (AList.update ''MACD_hist'' (FloatCol mh)
     (AList.update ''MACD_signal'' (FloatCol ms)
     (AList.update ''MACD'' (FloatCol ml)
     (AList.update ''RSI'' (FloatCol rsi) (cols ?df)))))))))))\<rparr>"
  define out where "out = mid\<lparr>cols := map (\<lambda>(k, c). (k, scrub_column c)) (cols mid)\<rparr>"
  have run: "compute_all_indicators h a = Some (Suc (length h), h @ [mid, out])"
    unfolding out_def mid_def tr_def v [symmetric]
    by (rule compute_all_indicators_store
          [OF c rsi(1) [folded v] macd(1) e10(1) [folded v] e100(1) [folded v] vwap(1) refl])
  have lobv: "length (as_float ?obv) = ?n" and ltr: "length tr = ?n"
    using len v by (simp_all add: tr_def)
  have wfmid: "wf_frame mid"
    unfolding mid_def
    using assms(1) rsi(2) macd(2-4) e10(2) e100(2) vwap(2) lobv ltr
    by (intro wf_frame_update) simp_all
  have cout: "column_of out k = map_option scrub_column (column_of mid k)" for k
    unfolding out_def
    using column_of_scrubbed [where f = mid and g = scrub_column and ?c0.0 = "cols mid" and k = k]
    by simp
  have gout: "getitem out k = map_option (map inf_to_nan) (getitem mid k)" for k
    unfolding out_def
    using getitem_scrubbed [where f = mid and ?c0.0 = "cols mid" and k = k] by simp
  have cmid: "column_of mid k = column_of ?df k" if "k \<notin> set indicator_names" for k
    using that unfolding mid_def indicator_names_def
    by (simp add: column_of_update_other)
  have gmid: "getitem mid k = getitem ?df k" if "k \<notin> set indicator_names" for k
    using cmid [OF that] by (simp add: getitem_def)
  have gmid_ind: "getitem mid k \<noteq> None" if "k \<in> set indicator_names" for k
    using that unfolding mid_def indicator_names_def
    by (auto simp: getitem_update_other getitem_update_same)
  have "index out = index ?df" by (simp add: out_def mid_def)
  moreover have "wf_frame out"
    unfolding out_def using wfmid wf_frame_scrubbed [where f = mid and ?c0.0 = "cols mid"] by simp
  moreover have "getitem out ''TR'' = Some (map inf_to_nan tr)"
    unfolding gout mid_def by (simp add: getitem_update_other getitem_update_same)
  moreover have "getitem out ''ATR_14'' = Some (map inf_to_nan (rolling_mean 14 1 tr))"
    unfolding gout mid_def by (simp add: getitem_update_other getitem_update_same)
  moreover have "column_of out ''OBV'' = Some (scrub_column (col_cumsum ?obv))"
    unfolding cout mid_def by (simp add: column_of_update_other column_of_update_same)
  moreover have "\<forall>k. k \<notin> set indicator_names \<longrightarrow>
            column_of out k = map_option scrub_column (column_of ?df k)"
    by (simp add: cout cmid)
  moreover have "\<forall>k. k \<notin> set indicator_names \<longrightarrow>
            getitem out k = map_option (map inf_to_nan) (getitem ?df k)"
    by (simp add: gout gmid)
  moreover have "\<forall>k. getitem out k \<noteq> None \<longleftrightarrow> k \<in> set indicator_names \<or> getitem ?df k \<noteq> None"
  proof
    fix k
    show "getitem out k \<noteq> None \<longleftrightarrow> k \<in> set indicator_names \<or> getitem ?df k \<noteq> None"
      using gmid [of k] gmid_ind [of k] by (cases "k \<in> set indicator_names") (auto simp: gout)
  qed
  moreover have "\<forall>(k, c) \<in> set (cols out). \<forall>x \<in> set (as_float c). \<not> isinf x"
    unfolding out_def using no_inf_scrubbed by fastforce
  ultimately show ?thesis using run c(4) by blast
qed

section \<open>True range and its average at the first bar\<close>

lemma nth_row_max3:
  "i < length xs \<Longrightarrow> i < length ys \<Longrightarrow> i < length zs \<Longrightarrow>
   row_max3 xs ys zs ! i = fmax2 (fmax2 (xs ! i) (ys ! i)) (zs ! i)"
  by (simp add: row_max3_def)

lemma nth_shift:
  "k < length xs \<Longrightarrow> shift xs ! k = (if k = 0 then NaN else xs ! (k - 1))"
  by (cases xs) (auto simp: nth_Cons' nth_butlast)

lemma fsub_NaN [simp]: "fsub x NaN = NaN"
  by (cases x) (simp_all add: fsub_def)

lemma fmax2_NaN_right [simp]: "fmax2 a NaN = a"
  by (cases a) (simp_all add: fmax2_def)

lemma inf_to_nan_idem [simp]: "inf_to_nan (inf_to_nan x) = inf_to_nan x"
  by (cases x) (simp_all add: inf_to_nan_def)

lemma store_result_nth: "(h @ [mid, out]) ! Suc (length h) = out"
  by (simp add: nth_append)

text \<open>
  Claim C7. For every non-empty series, the first bar's true range in the frame
  \<open>compute_all_indicators\<close> returns is \<open>high[0] - low[0]\<close> (the two terms with the missing
  previous close drop out of the maximum), and \<open>ATR_14[0]\<close> equals \<open>TR[0]\<close>: the average
  over the single bar of the first window. (When \<open>high[0] - low[0]\<close> is not a finite number,
  both are NaN.)
\<close>

theorem first_bar_true_range:
  assumes "wf_frame (h ! a)"
    and "getitem (h ! a) ''close'' = Some close"
    and "getitem (h ! a) ''high'' = Some high"
    and "getitem (h ! a) ''low'' = Some low"
    and "getitem (h ! a) ''volume'' = Some volume"
    and "index (h ! a) \<noteq> []"
  shows "\<exists>r h' tr atr. compute_all_indicators h a = Some (r, h')
           \<and> getitem (h' ! r) ''TR'' = Some tr
           \<and> getitem (h' ! r) ''ATR_14'' = Some atr
           \<and> tr \<noteq> [] \<and> atr \<noteq> []
           \<and> tr ! 0 = inf_to_nan (fsub (high ! 0) (low ! 0))
           \<and> atr ! 0 = tr ! 0
           \<and> (\<forall>x y. high ! 0 = Fin x \<and> low ! 0 = Fin y \<longrightarrow>
                 tr ! 0 = Fin (x - y) \<and> atr ! 0 = Fin (x - y))"
proof -
  let ?tr = "row_max3 (zipwith fsub high low)
                         (map fabs (zipwith fsub high (shift close)))
                         (map fabs (zipwith fsub low (shift close)))"
  from compute_all_indicators_columns [OF assms(1-5)] obtain mid out where
    run: "compute_all_indicators h a = Some (Suc (length h), h @ [mid, out])"
    and tr: "getitem out ''TR'' = Some (map inf_to_nan ?tr)"
    and atr: "getitem out ''ATR_14'' = Some (map inf_to_nan (rolling_mean 14 1 ?tr))"
    by blast
  have len: "0 < length close" "0 < length high" "0 < length low"
    using assms(1-4,6) by (simp_all add: wf_frame_getitem)
  then have ltr: "0 < length ?tr" by simp
  have tr0: "?tr ! 0 = fsub (high ! 0) (low ! 0)"
    using len by (simp add: nth_row_max3 nth_shift)
  have trne: "?tr \<noteq> []" using ltr by (metis length_greater_0_conv)
  have atr0: "rolling_mean 14 1 ?tr ! 0 = inf_to_nan (?tr ! 0)"
    using rolling_mean_first [OF trne, of 14] by simp
  have a: "map inf_to_nan ?tr ! 0 = inf_to_nan (fsub (high ! 0) (low ! 0))"
    using ltr tr0 by (simp del: length_row_max3)
  have b: "map inf_to_nan (rolling_mean 14 1 ?tr) ! 0 = map inf_to_nan ?tr ! 0"
    using ltr atr0 by (simp del: length_row_max3)
  have c: "\<forall>x y. high ! 0 = Fin x \<and> low ! 0 = Fin y \<longrightarrow>
             inf_to_nan (fsub (high ! 0) (low ! 0)) = Fin (x - y)"
    by (simp add: fsub_def inf_to_nan_def)
  have ne: "map inf_to_nan ?tr \<noteq> []" "map inf_to_nan (rolling_mean 14 1 ?tr) \<noteq> []"
    using trne by (metis map_is_Nil_conv, metis map_is_Nil_conv length_rolling_mean length_0_conv)
  show ?thesis
    apply (rule exI [of _ "Suc (length h)"], rule exI [of _ "h @ [mid, out]"])
    apply (rule exI [of _ "map inf_to_nan ?tr"])
    apply (rule exI [of _ "map inf_to_nan (rolling_mean 14 1 ?tr)"])
    unfolding store_result_nth b
    using run tr atr a c ne by simp
qed

theorem first_bar_true_range_witness:
  "wf_frame ([bars_ohlcv] ! 0) \<and> index ([bars_ohlcv] ! 0) \<noteq> []
   \<and> (\<exists>r h' tr atr. compute_all_indicators [bars_ohlcv] 0 = Some (r, h')
         \<and> getitem (h' ! r) ''TR'' = Some tr
         \<and> getitem (h' ! r) ''ATR_14'' = Some atr
         \<and> tr ! 0 = Fin (3 - 1) \<and> atr ! 0 = Fin (3 - 1))"
proof -
  have h1: "wf_frame ([bars_ohlcv] ! 0)" by code_simp
  have h2: "getitem ([bars_ohlcv] ! 0) ''close'' = Some [Fin 1, Fin 2, Fin 1]" by code_simp
  have h3: "getitem ([bars_ohlcv] ! 0) ''high'' = Some [Fin 3, Fin 3, Fin 3]" by code_simp
  have h4: "getitem ([bars_ohlcv] ! 0) ''low'' = Some [Fin 1, Fin 1, Fin 0]" by code_simp
  have h5: "getitem ([bars_ohlcv] ! 0) ''volume'' = Some [Fin 10, Fin 5, Fin 0]" by code_simp
  have h6: "index ([bars_ohlcv] ! 0) \<noteq> []" by code_simp
  have h7: "[Fin 3, Fin 3, Fin 3] ! 0 = Fin 3 \<and> [Fin 1, Fin 1, Fin 0] ! 0 = Fin 1" by simp
  from first_bar_true_range [OF h1 h2 h3 h4 h5 h6] h7 h1 h6 show ?thesis by blast
qed

section \<open>On-balance volume\<close>

lemma obv_sign_diff:
  "obv_sign (if isnan (fsub x y) then Fin 0 else fsub x y) = (if fgt x y then 1 else - 1)"
  by (cases x; cases y) (simp_all add: obv_sign_def fsub_def fgt_def)

text \<open>The signs the program computes are the signs of the specification.\<close>

lemma obv_signs:
  "map obv_sign (fillna (Fin 0) (diff close)) = map (obv_sign_spec close) [0..<length close]"
proof (rule nth_equalityI)
  show "length (map obv_sign (fillna (Fin 0) (diff close)))
        = length (map (obv_sign_spec close :: nat \<Rightarrow> 64 word) [0..<length close])"
    by (simp add: diff_def)
next
  fix i
  assume "i < length (map obv_sign (fillna (Fin 0) (diff close)))"
  then have i: "i < length close" by (simp add: diff_def)
  have d: "fillna (Fin 0) (diff close) ! i
        = (if isnan (fsub (close ! i) (shift close ! i)) then Fin 0
           else fsub (close ! i) (shift close ! i))"
    using i by (simp add: fillna_def diff_def)
  have "obv_sign (fillna (Fin 0) (diff close) ! i) = obv_sign_spec close i"
  proof (cases "i = 0")
    case True
    then have "shift close ! i = NaN" using i by (simp add: nth_shift)
    then show ?thesis
      using True unfolding d by (simp add: obv_sign_def obv_sign_spec_def fgt_def)
  next
    case False
    then have "shift close ! i = close ! (i - 1)" using i by (simp add: nth_shift)
    then show ?thesis
      using False unfolding d by (simp only: obv_sign_diff) (simp add: obv_sign_spec_def)
  qed
  then show "map obv_sign (fillna (Fin 0) (diff close)) ! i
        = map (obv_sign_spec close) [0..<length close] ! i"
    using i by (simp add: diff_def)
qed

lemma int_to_float_sign:
  "int_to_float (obv_sign_spec close k) = Fin (obv_sign_spec close k)"
  by (simp add: obv_sign_spec_def int_to_float_def)

lemma cumsum_from_Fin_nth:
  "t < length rs \<Longrightarrow>
   cumsum_from (Fin acc) (map Fin rs) ! t = Fin (acc + sum_list (take (Suc t) rs))"
proof (induction rs arbitrary: acc t)
  case Nil
  then show ?case by simp
next
  case (Cons r rs)
  show ?case
  proof (cases t)
    case 0
    then show ?thesis by (simp add: Let_def)
  next
    case (Suc u)
    with Cons.prems have "u < length rs" by simp
    from Cons.IH [OF this, of "acc + r"] Suc show ?thesis by (simp add: Let_def add.assoc)
  qed
qed

lemma int_cumsum_from_nth:
  "t < length ws \<Longrightarrow> int_cumsum_from acc ws ! t = acc + sum_list (take (Suc t) ws)"
proof (induction ws arbitrary: acc t)
  case Nil
  then show ?case by simp
next
  case (Cons w ws)
  show ?case
  proof (cases t)
    case 0
    then show ?thesis by simp
  next
    case (Suc u)
    with Cons.prems have "u < length ws" by simp
    from Cons.IH [OF this, of "acc + w"] Suc show ?thesis by (simp add: add.assoc)
  qed
qed

lemma take_map_upt: "t < n \<Longrightarrow> take (Suc t) (map f [0..<n]) = map f [0..<Suc t]"
  by (simp add: take_map del: upt_Suc)

text \<open>The running sum over a float column of numbers, and over an \<open>int64\<close> column.\<close>

lemma obv_float_raw:
  assumes "length close = length vs"
  shows "cumsum (zipwith fmul (map int_to_float (map obv_sign (fillna (Fin 0) (diff close))))
                              (map Fin vs))
         = map Fin (obv_spec close vs)"
proof -
  let ?f = "\<lambda>k. obv_sign_spec close k * vs ! k"
  have raw: "zipwith fmul (map int_to_float (map obv_sign (fillna (Fin 0) (diff close))))
                          (map Fin vs)
             = map Fin (map ?f [0..<length vs])"
    unfolding obv_signs using assms
    by (intro nth_equalityI) (simp_all add: int_to_float_sign)
  show ?thesis
  proof (rule nth_equalityI)
    show "length (cumsum (zipwith fmul
              (map int_to_float (map obv_sign (fillna (Fin 0) (diff close)))) (map Fin vs)))
          = length (map Fin (obv_spec close vs))"
      using assms by (simp add: obv_spec_def diff_def)
  next
    fix t
    assume "t < length (cumsum (zipwith fmul
              (map int_to_float (map obv_sign (fillna (Fin 0) (diff close)))) (map Fin vs)))"
    then have t: "t < length vs" using assms by (simp add: diff_def)
    have "cumsum_from (Fin 0) (map Fin (map ?f [0..<length vs])) ! t
          = Fin (0 + sum_list (take (Suc t) (map ?f [0..<length vs])))"
      using t by (intro cumsum_from_Fin_nth) simp
    then show "cumsum (zipwith fmul
              (map int_to_float (map obv_sign (fillna (Fin 0) (diff close)))) (map Fin vs)) ! t
          = map Fin (obv_spec close vs) ! t"
      unfolding raw cumsum_def using t by (simp add: take_map_upt obv_spec_def del: upt_Suc)
  qed
qed

lemma obv_int_raw:
  assumes "length close = length ws"
  shows "int_cumsum_from 0 (zipwith (*) (map obv_sign (fillna (Fin 0) (diff close))) ws)
         = obv_spec close ws"
proof -
  let ?f = "\<lambda>k. obv_sign_spec close k * ws ! k"
  have raw: "zipwith (*) (map obv_sign (fillna (Fin 0) (diff close))) ws
             = map ?f [0..<length ws]"
    unfolding obv_signs using assms by (intro nth_equalityI) simp_all
  show ?thesis
  proof (rule nth_equalityI)
    show "length (int_cumsum_from 0 (zipwith (*) (map obv_sign (fillna (Fin 0) (diff close))) ws))
          = length (obv_spec close ws)"
      using assms by (simp add: obv_spec_def diff_def)
  next
    fix t
    assume "t < length (int_cumsum_from 0
                (zipwith (*) (map obv_sign (fillna (Fin 0) (diff close))) ws))"
    then have t: "t < length ws" using assms by (simp add: diff_def)
    have "int_cumsum_from 0 (map ?f [0..<length ws]) ! t
          = 0 + sum_list (take (Suc t) (map ?f [0..<length ws]))"
      using t by (intro int_cumsum_from_nth) simp
    then show "int_cumsum_from 0 (zipwith (*) (map obv_sign (fillna (Fin 0) (diff close))) ws) ! t
          = obv_spec close ws ! t"
      unfolding raw using t by (simp add: take_map_upt obv_spec_def del: upt_Suc)
  qed
qed

text \<open>
  On a \<open>float64\<close> volume column of numbers the \<open>OBV\<close> column is the cumulative signed
  volume, and it starts with \<open>- volume[0]\<close>.
\<close>

lemma obv_on_float_volume:
  assumes "wf_frame (h ! a)"
    and "getitem (h ! a) ''close'' = Some close"
    and "getitem (h ! a) ''high'' = Some high"
    and "getitem (h ! a) ''low'' = Some low"
    and "column_of (h ! a) ''volume'' = Some (FloatCol (map Fin vs))"
  shows "\<exists>r h'. compute_all_indicators h a = Some (r, h')
           \<and> getitem (h' ! r) ''OBV'' = Some (map Fin (obv_spec close vs))"
proof -
  have vol: "getitem (h ! a) ''volume'' = Some (map Fin vs)"
    using assms(5) by (simp add: getitem_def)
  from compute_all_indicators_columns [OF assms(1-4) vol] assms(5) obtain mid out where
    run: "compute_all_indicators h a = Some (Suc (length h), h @ [mid, out])"
    and obv: "column_of out ''OBV''
                = Some (scrub_column (col_cumsum
                    (col_mul (IntCol (map obv_sign (fillna (Fin 0) (diff close))))
                             (FloatCol (map Fin vs)))))"
    by auto
  have len: "length close = length vs"
    using assms(1,2) vol wf_frame_getitem by fastforce
  have "map inf_to_nan (map Fin (obv_spec close vs)) = map Fin (obv_spec close vs)"
    by (simp add: inf_to_nan_def)
  then have "getitem out ''OBV'' = Some (map Fin (obv_spec close vs))"
    using obv obv_float_raw [OF len] by (simp add: getitem_def)
  with run show ?thesis by (metis store_result_nth)
qed

lemma obv_spec_first: "volume \<noteq> [] \<Longrightarrow> obv_spec close volume ! 0 = - volume ! 0"
  by (simp add: obv_spec_def obv_sign_spec_def upt_rec [of 0])

text \<open>
  On an \<open>int64\<close> volume column the \<open>OBV\<close> column is the cumulative signed volume taken in
  64-bit words.
\<close>

lemma obv_on_int64_volume:
  assumes "wf_frame (h ! a)"
    and "getitem (h ! a) ''close'' = Some close"
    and "getitem (h ! a) ''high'' = Some high"
    and "getitem (h ! a) ''low'' = Some low"
    and "column_of (h ! a) ''volume'' = Some (IntCol ws)"
  shows "\<exists>r h'. compute_all_indicators h a = Some (r, h')
           \<and> getitem (h' ! r) ''OBV'' = Some (map int_to_float (obv_spec close ws))"
proof -
  have vol: "getitem (h ! a) ''volume'' = Some (map int_to_float ws)"
    using assms(5) by (simp add: getitem_def)
  from compute_all_indicators_columns [OF assms(1-4) vol] assms(5) obtain mid out where
    run: "compute_all_indicators h a = Some (Suc (length h), h @ [mid, out])"
    and obv: "column_of out ''OBV''
                = Some (scrub_column (col_cumsum
                    (col_mul (IntCol (map obv_sign (fillna (Fin 0) (diff close))))
                             (IntCol ws))))"
    by auto
  have len: "length close = length ws"
    using assms(1,2) vol wf_frame_getitem by fastforce
  have "getitem out ''OBV'' = Some (map int_to_float (obv_spec close ws))"
    using obv obv_int_raw [OF len] by (simp add: getitem_def)
  with run show ?thesis by (metis store_result_nth)
qed

text \<open>As long as no partial sum leaves the 64-bit range, that is the cumulative signed
  volume itself.\<close>

lemma sum_list_of_int: "sum_list (map of_int xs) = of_int (sum_list xs)"
  by (induction xs) simp_all

lemma obv_spec_of_int: "obv_spec close (map of_int vs) = map of_int (obv_spec close vs)"
proof -
  have s: "(of_int (obv_sign_spec close k :: int) :: 'a::ring_1) = obv_sign_spec close k" for k
    by (simp add: obv_sign_spec_def)
  have "sum_list (map (\<lambda>k. obv_sign_spec close k * map of_int vs ! k) [0..<Suc t])
        = (of_int (sum_list (map (\<lambda>k. obv_sign_spec close k * vs ! k) [0..<Suc t])) :: 'a)"
    if "t < length vs" for t
  proof -
    have "map (\<lambda>k. obv_sign_spec close k * map of_int vs ! k) [0..<Suc t]
          = map (of_int :: int \<Rightarrow> 'a) (map (\<lambda>k. obv_sign_spec close k * vs ! k) [0..<Suc t])"
      using that by (intro nth_equalityI) (simp_all add: s del: upt_Suc)
    then show ?thesis by (simp only: sum_list_of_int)
  qed
  then show ?thesis by (simp add: obv_spec_def del: upt_Suc)
qed

lemma int_to_float_in_range:
  "- (2 ^ 63) \<le> x \<Longrightarrow> x < 2 ^ 63 \<Longrightarrow> int_to_float (word_of_int x) = Fin (real_of_int x)"
  by (simp add: int_to_float_def sint_sbintrunc' signed_take_bit_int_eq_self)

lemma obv_on_int64_volume_in_range:
  assumes "wf_frame (h ! a)"
    and "getitem (h ! a) ''close'' = Some close"
    and "getitem (h ! a) ''high'' = Some high"
    and "getitem (h ! a) ''low'' = Some low"
    and "column_of (h ! a) ''volume'' = Some (IntCol ws)"
    and "\<forall>x \<in> set (obv_spec close (map sint ws)). - (2 ^ 63) \<le> x \<and> x < 2 ^ 63"
  shows "\<exists>r h'. compute_all_indicators h a = Some (r, h')
           \<and> getitem (h' ! r) ''OBV''
               = Some (map (\<lambda>x. Fin (real_of_int x)) (obv_spec close (map sint ws)))"
proof -
  have e: "map word_of_int (map sint ws) = ws" by (induction ws) simp_all
  have "obv_spec close (map word_of_int (map sint ws))
        = (map word_of_int (obv_spec close (map sint ws)) :: 64 word list)"
    by (rule obv_spec_of_int)
  then have "obv_spec close ws = map word_of_int (obv_spec close (map sint ws))"
    by (simp only: e)
  then have "map int_to_float (obv_spec close ws)
             = map (\<lambda>x. Fin (real_of_int x)) (obv_spec close (map sint ws))"
    using assms(6) by (simp add: int_to_float_in_range)
  with obv_on_int64_volume [OF assms(1-5)] show ?thesis by simp
qed

text \<open>
  Claim C8. The \<open>OBV\<close> column is to be the cumulative sum of \<open>sign[t] * volume[t]\<close>, with
  \<open>OBV[0] = - volume[0]\<close>. The program computes it on a \<open>float64\<close> volume column, and on an
  \<open>int64\<close> one while the sums stay within 64 bits (the lemmas above). A volume column of
  whole numbers is \<open>int64\<close>, though, the product with the sign and \<open>cumsum()\<close> stay \<open>int64\<close>,
  and the sum wraps around: for three bars with falling closes and the volume \<open>2^62\<close> each,
  the cumulative signed volume is \<open>-2^62, -2^63, -3 * 2^62\<close>, and the column returned ends
  with \<open>+2^62\<close>.
\<close>

theorem obv_wraps_at_big_volume:
  "obv_of bars_big_volume
     = Some [Fin (- 4611686018427387904), Fin (- 9223372036854775808),
             Fin 4611686018427387904]
   \<and> getitem bars_big_volume ''close'' = Some [Fin 3, Fin 2, Fin 1]
   \<and> getitem bars_big_volume ''volume''
       = Some [Fin 4611686018427387904, Fin 4611686018427387904, Fin 4611686018427387904]
   \<and> obv_spec [Fin 3, Fin 2, Fin 1]
               [4611686018427387904, 4611686018427387904, 4611686018427387904 :: real]
       = [- 4611686018427387904, - 9223372036854775808, - 13835058055282163712]"
  by code_simp

section \<open>The frame the indicators are added to\<close>

text \<open>
  Claim C9. For every well-formed input, \<open>compute_all_indicators\<close> returns a new frame
  (an address the caller's store did not hold) with the index of its input, every column
  as long as that index, and every column of the input still there; a base column without
  infinite values is returned unchanged, values and dtype, no value of the result is
  infinite, and no frame of the caller's store, the input among them, is changed.
\<close>

theorem indicators_keep_frame:
  assumes "a < length h" and "wf_frame (h ! a)"
    and "getitem (h ! a) ''close'' = Some close"
    and "getitem (h ! a) ''high'' = Some high"
    and "getitem (h ! a) ''low'' = Some low"
    and "getitem (h ! a) ''volume'' = Some volume"
  shows "\<exists>r h'. compute_all_indicators h a = Some (r, h')
           \<and> length h \<le> r \<and> r < length h'
           \<and> (\<forall>b < length h. h' ! b = h ! b)
           \<and> h' ! a = h ! a
           \<and> index (h' ! r) = index (h ! a)
           \<and> wf_frame (h' ! r)
           \<and> (\<forall>k \<in> set base_names. \<forall>c. getitem (h ! a) k = Some c \<and> (\<forall>x \<in> set c. \<not> isinf x)
                 \<longrightarrow> getitem (h' ! r) k = Some c)
           \<and> (\<forall>k \<in> set base_names. \<forall>c.
                 column_of (h ! a) k = Some c \<and> (\<forall>x \<in> set (as_float c). \<not> isinf x)
                 \<longrightarrow> column_of (h' ! r) k = Some c)
           \<and> (\<forall>k. getitem (h ! a) k \<noteq> None \<longrightarrow> getitem (h' ! r) k \<noteq> None)
           \<and> (\<forall>(k, c) \<in> set (cols (h' ! r)). \<forall>x \<in> set (as_float c). \<not> isinf x)"
proof -
  from compute_all_indicators_columns [OF assms(2-6)] obtain mid out where
    run: "compute_all_indicators h a = Some (Suc (length h), h @ [mid, out])"
    and idx: "index out = index (h ! a)" and wf: "wf_frame out"
    and ckeep: "\<forall>k. k \<notin> set indicator_names \<longrightarrow>
            column_of out k = map_option scrub_column (column_of (h ! a) k)"
    and keep: "\<forall>k. k \<notin> set indicator_names \<longrightarrow>
            getitem out k = map_option (map inf_to_nan) (getitem (h ! a) k)"
    and dom: "\<forall>k. getitem out k \<noteq> None \<longleftrightarrow> k \<in> set indicator_names \<or> getitem (h ! a) k \<noteq> None"
    and noinf: "\<forall>(k, c) \<in> set (cols out). \<forall>x \<in> set (as_float c). \<not> isinf x"
    by blast
  have same: "map inf_to_nan c = c" if "\<forall>x \<in> set c. \<not> isinf x" for c
    using that by (intro map_idI) (simp add: inf_to_nan_def)
  have base: "\<forall>k \<in> set base_names. \<forall>c. getitem (h ! a) k = Some c \<and> (\<forall>x \<in> set c. \<not> isinf x)
                 \<longrightarrow> getitem out k = Some c"
  proof (intro ballI allI impI)
    fix k c assume k: "k \<in> set base_names"
      and c: "getitem (h ! a) k = Some c \<and> (\<forall>x \<in> set c. \<not> isinf x)"
    from k have "k \<notin> set indicator_names"
      by (auto simp: base_names_def indicator_names_def)
    with keep c same show "getitem out k = Some c" by simp
  qed
  have cbase: "\<forall>k \<in> set base_names. \<forall>c.
                 column_of (h ! a) k = Some c \<and> (\<forall>x \<in> set (as_float c). \<not> isinf x)
                 \<longrightarrow> column_of out k = Some c"
  proof (intro ballI allI impI)
    fix k c assume k: "k \<in> set base_names"
      and c: "column_of (h ! a) k = Some c \<and> (\<forall>x \<in> set (as_float c). \<not> isinf x)"
    from k have "k \<notin> set indicator_names"
      by (auto simp: base_names_def indicator_names_def)
    with ckeep c scrub_column_same [of c] show "column_of out k = Some c" by simp
  qed
  have old: "\<forall>b < length h. (h @ [mid, out]) ! b = h ! b" by (simp add: nth_append)
  show ?thesis
    apply (rule exI [of _ "Suc (length h)"], rule exI [of _ "h @ [mid, out]"])
    unfolding store_result_nth
    using run idx wf base cbase dom noinf old assms(1) by simp
qed

theorem indicators_keep_frame_witness:
  "(0::nat) < length [bars_ohlcv] \<and> wf_frame ([bars_ohlcv] ! 0)
   \<and> (\<exists>r h'. compute_all_indicators [bars_ohlcv] 0 = Some (r, h')
         \<and> length [bars_ohlcv] \<le> r
         \<and> h' ! 0 = [bars_ohlcv] ! 0
         \<and> index (h' ! r) = index ([bars_ohlcv] ! 0)
         \<and> wf_frame (h' ! r)
         \<and> getitem (h' ! r) ''open'' = Some [Fin 1, Fin 1, Fin 2])"
proof -
  have h0: "(0::nat) < length [bars_ohlcv]" by simp
  have h1: "wf_frame ([bars_ohlcv] ! 0)" by code_simp
  have h2: "getitem ([bars_ohlcv] ! 0) ''close'' = Some [Fin 1, Fin 2, Fin 1]" by code_simp
  have h3: "getitem ([bars_ohlcv] ! 0) ''high'' = Some [Fin 3, Fin 3, Fin 3]" by code_simp
  have h4: "getitem ([bars_ohlcv] ! 0) ''low'' = Some [Fin 1, Fin 1, Fin 0]" by code_simp
  have h5: "getitem ([bars_ohlcv] ! 0) ''volume'' = Some [Fin 10, Fin 5, Fin 0]" by code_simp
  have h6: "''open'' \<in> set base_names" by (simp add: base_names_def)
  have h7: "getitem ([bars_ohlcv] ! 0) ''open'' = Some [Fin 1, Fin 1, Fin 2]
            \<and> (\<forall>x \<in> set [Fin 1, Fin 1, Fin 2]. \<not> isinf x)"
    by code_simp
  from indicators_keep_frame [OF h0 h1 h2 h3 h4 h5] h0 h1 h6 h7 show ?thesis by blast
qed

section \<open>The frames the backtest receives\<close>

text \<open>The service runs \<open>safe_backtest\<close> on what \<open>compute_all_indicators\<close> returns: a frame
  whose open prices are finite or missing.\<close>

lemma indicators_open_not_infinite:
  assumes "wf_frame (h ! a)"
    and "getitem (h ! a) ''close'' = Some close"
    and "getitem (h ! a) ''high'' = Some high"
    and "getitem (h ! a) ''low'' = Some low"
    and "getitem (h ! a) ''volume'' = Some volume"
    and "compute_all_indicators h a = Some (r, h')"
    and "getitem (h' ! r) ''open'' = Some opn"
  shows "PInf \<notin> set opn"
proof -
  from compute_all_indicators_columns [OF assms(1-5)] obtain mid out where
    run: "compute_all_indicators h a = Some (Suc (length h), h @ [mid, out])"
    and noinf: "\<forall>(k, c) \<in> set (cols out). \<forall>x \<in> set (as_float c). \<not> isinf x"
    by blast
  from run assms(6) have "h' ! r = out" by (auto simp: store_result_nth)
  with assms(7) obtain c where "(''open'', c) \<in> set (cols out)" and "as_float c = opn"
    by (auto simp: getitem_def column_of_def dest: map_of_SomeD)
  with noinf have "\<forall>x \<in> set opn. \<not> isinf x" by fastforce
  then show ?thesis by auto
qed

end
